theory Spec2Isabelle
  imports Main "HOL-Library.AList" "HOL-Library.Sublist"
begin

section \<open>The Mongo-to-Postgres migration script \<open>Vulcan.mongoToSql\<close>\<close>

text \<open>
  The development embeds the migration script (the second document of
  \<^verbatim>\<open>lib/collections/databaseMetadata/collection.ts\<close>): the formatter table
  \<^verbatim>\<open>formatters\<close> and the function \<^verbatim>\<open>Vulcan.mongoToSql\<close>. The classes it
  imports (\<^verbatim>\<open>Table\<close>, \<^verbatim>\<open>CreateTableQuery\<close>, \<^verbatim>\<open>CreateIndexQuery\<close>,
  \<^verbatim>\<open>InsertQuery\<close>), the SQL client and \<^verbatim>\<open>getCollection\<close> are collaborators whose
  code is not part of the sources at hand: they are parameters of the model
  (the record \<open>env\<close>), so the theorems hold for whatever they do. What is taken
  from the specification instead (the fields of a table, the iteration over batches,
  what an additive destination is) is marked as such where it is defined.
\<close>

subsection \<open>JavaScript values, documents, object references\<close>

text \<open>
  The values a document field can hold, as far as the script looks at them.
  Numbers are integers here (no NaN); a \<^verbatim>\<open>Date\<close> is its epoch time.
\<close>

datatype jsval = JUndefined | JNull | JBool bool | JNum int | JStr string | JDate int

text \<open>
  A document (\<^verbatim>\<open>DbObject\<close>) is a JavaScript object: an insertion-ordered
  dictionary. Reading an absent property gives \<^verbatim>\<open>undefined\<close>; assigning
  overwrites in place or appends the key.
\<close>

type_synonym doc = "(string \<times> jsval) list"

definition getProp :: "doc \<Rightarrow> string \<Rightarrow> jsval" where
  "getProp d k = (case map_of d k of None \<Rightarrow> JUndefined | Some v \<Rightarrow> v)"

definition setProp :: "doc \<Rightarrow> string \<Rightarrow> jsval \<Rightarrow> doc" where
  "setProp d k v = AList.update k v d"

text \<open>\<^verbatim>\<open>typeof v === "boolean"\<close>\<close>

fun typeofBoolean :: "jsval \<Rightarrow> bool" where
  "typeofBoolean (JBool b) = True"
| "typeofBoolean v = False"

text \<open>\<^verbatim>\<open>!v\<close>: the falsy values.\<close>

fun falsy :: "jsval \<Rightarrow> bool" where
  "falsy JUndefined = True"
| "falsy JNull = True"
| "falsy (JBool b) = (\<not> b)"
| "falsy (JNum n) = (n = 0)"
| "falsy (JStr s) = (s = [])"
| "falsy (JDate t) = False"

text \<open>
  Documents are objects handled by reference: the formatter assigns to the
  fields of the object it is given. The store maps a reference to the object's
  current content.
\<close>

type_synonym ref = nat

subsection \<open>Tables, queries, errors\<close>

text \<open>
  Modelled from the spec: the class \<^verbatim>\<open>Table\<close> (\<^verbatim>\<open>lib/sql/Table\<close>) is not among
  the sources. The spec's data model gives a table a name, an ordered list of
  fields (name, relational type, nullability) and a list of indexes (name,
  field set, uniqueness flag). The script reads only
  \<^verbatim>\<open>Object.keys(table.getFields())\<close> and \<^verbatim>\<open>table.getIndexes()\<close>.
\<close>

record tableField =
  fieldName :: string
  fieldType :: string
  nullable :: bool

record tableIndex =
  indexName :: string
  indexFields :: "string list"
  isUnique :: bool

record table =
  getName :: string
  getFields :: "tableField list"
  getIndexes :: "tableIndex list"

text \<open>
  Modelled from the spec: the conflict strategies of \<^verbatim>\<open>InsertQuery\<close>
  (\<^verbatim>\<open>lib/sql/InsertQuery\<close> is not among the sources) are "ignore" and the
  default "error".
\<close>

datatype conflictStrategy = ConflictError | ConflictIgnore

text \<open>
  The query objects the script constructs. An \<^verbatim>\<open>InsertQuery\<close> holds the
  content of the documents it was given (its third constructor argument is
  always the empty object and is left out).
\<close>

datatype query =
    CreateTableQuery table
  | CreateIndexQuery table tableIndex
  | InsertQuery table "doc list" conflictStrategy

datatype jserror = JsError string

subsection \<open>What the script prints and calls\<close>

text \<open>One constructor for each \<^verbatim>\<open>console\<close> call of the script, with the data it interpolates.\<close>

datatype message =
    MigratingCollection string
  | LookingUpCollection
  | BuildingSchema
  | MigratingFields "string list"
  | SkippedFields "string list"
  | CreatingTable
  | FailedToCreateTable
  | ShowTable table
  | CreatingIndexes
  | NoIndexesFound
  | CopyingData
  | MigratingDocuments nat nat
  | ErrorImportingDocumentBatch
  | ShowError jserror
  | ImportErrors nat "jsval list"
  | FinishedMigrating string

datatype level = LevelLog | LevelWarn | LevelError

text \<open>
  The trace of a run: console output, every call of \<^verbatim>\<open>compile()\<close>, and every
  call of \<^verbatim>\<open>sql.unsafe\<close> with the query whose compiled form was sent and how
  the call ended (\<open>Some e\<close>: it threw \<open>e\<close>).
\<close>

datatype 'c event =
    Console level message
  | Compile query
  | Unsafe query 'c "jserror option"

subsection \<open>Collections, collaborators, the world\<close>

text \<open>
  A collection as the script sees it: its name, \<^verbatim>\<open>Object.keys(collection._schemaFields)\<close>,
  and the documents its cursor yields, in cursor order.
\<close>

record collection =
  collectionName :: string
  schemaFields :: "string list"
  documents :: "ref list"

text \<open>
  The collaborators. \<open>getSqlClientOrThrow = Some e\<close> means that it throws \<open>e\<close>.
  \<open>unsafe c d\<close> executes the compiled statement \<open>c\<close> on the destination \<open>d\<close>
  and returns the error thrown, if any, and the destination afterwards.
  \<open>now k\<close> is what the \<open>k\<close>-th call of \<^verbatim>\<open>Date.now()\<close> returns.
\<close>

record ('c, 'db) env =
  getCollection :: "string \<Rightarrow> collection option"
  fromCollection :: "collection \<Rightarrow> table"
  getSqlClientOrThrow :: "jserror option"
  compile :: "query \<Rightarrow> jserror + 'c"
  unsafe :: "'c \<Rightarrow> 'db \<Rightarrow> jserror option \<times> 'db"
  now :: "nat \<Rightarrow> int"

text \<open>
  Everything a run can change: the objects (\<open>heap\<close>), the destination store
  (\<open>db\<close>), the trace, the number of clock reads, and the two variables
  \<^verbatim>\<open>errorIds\<close> and \<^verbatim>\<open>count\<close> that the batch callback closes over.
\<close>

record ('c, 'db) world =
  heap :: "ref \<Rightarrow> doc"
  db :: 'db
  trace :: "'c event list"
  clock :: nat
  errorIds :: "jsval list"
  count :: nat

definition emit :: "'c event \<Rightarrow> ('c, 'db) world \<Rightarrow> ('c, 'db) world" where
  "emit e w = w\<lparr>trace := trace w @ [e]\<rparr>"

definition console :: "level \<Rightarrow> message \<Rightarrow> ('c, 'db) world \<Rightarrow> ('c, 'db) world" where
  "console l m w = emit (Console l m) w"

text \<open>\<^verbatim>\<open>query.compile()\<close>\<close>

definition compileQuery ::
  "('c, 'db) env \<Rightarrow> query \<Rightarrow> ('c, 'db) world \<Rightarrow> (jserror + 'c) \<times> ('c, 'db) world" where
  "compileQuery env q w = (compile env q, emit (Compile q) w)"

text \<open>\<^verbatim>\<open>await sql.unsafe(compiled.sql, compiled.args)\<close>, for the compiled form \<open>c\<close> of \<open>q\<close>\<close>

definition sqlUnsafe ::
  "('c, 'db) env \<Rightarrow> query \<Rightarrow> 'c \<Rightarrow> ('c, 'db) world \<Rightarrow> jserror option \<times> ('c, 'db) world" where
  "sqlUnsafe env q c w =
     (case unsafe env c (db w) of
        (r, d) \<Rightarrow> (r, emit (Unsafe q c r) (w\<lparr>db := d\<rparr>)))"

subsection \<open>The formatters\<close>

text \<open>\<^verbatim>\<open>Date.now()\<close>\<close>

definition dateNow :: "('c, 'db) env \<Rightarrow> ('c, 'db) world \<Rightarrow> int \<times> ('c, 'db) world" where
  "dateNow env w = (now env (clock w), w\<lparr>clock := Suc (clock w)\<rparr>)"

text \<open>\<^verbatim>\<open>document.k = v\<close>, for the object that \<open>document\<close> refers to\<close>

definition assign :: "ref \<Rightarrow> string \<Rightarrow> jsval \<Rightarrow> ('c, 'db) world \<Rightarrow> ('c, 'db) world" where
  "assign document k v w = w\<lparr>heap := (heap w)(document := setProp (heap w document) k v)\<rparr>"

text \<open>
  \<^verbatim>\<open>formatters.Posts\<close>: assigns to the document it is given and returns it.
\<close>

definition formatPosts ::
  "('c, 'db) env \<Rightarrow> ref \<Rightarrow> ('c, 'db) world \<Rightarrow> ref \<times> ('c, 'db) world" where
  "formatPosts env document w =
     (let w1 = (if typeofBoolean (getProp (heap w document) ''scoreExceeded75Date'')
                then (case dateNow env w of
                        (t, w') \<Rightarrow> assign document ''scoreExceeded75Date'' (JDate t) w')
                else w);
          w2 = (if falsy (getProp (heap w1 document) ''title'')
                then assign document ''title'' (JStr '''') w1
                else w1)
      in (document, w2))"

text \<open>
  The table \<^verbatim>\<open>formatters\<close>: one entry, \<^verbatim>\<open>Posts\<close>. (Collection names are of
  type \<^verbatim>\<open>CollectionNameString\<close>; none is a property of \<^verbatim>\<open>Object.prototype\<close>.)
\<close>

definition formatters ::
  "('c, 'db) env \<Rightarrow> string \<Rightarrow> (ref \<Rightarrow> ('c, 'db) world \<Rightarrow> ref \<times> ('c, 'db) world) option" where
  "formatters env name = (if name = ''Posts'' then Some (formatPosts env) else None)"

text \<open>\<^verbatim>\<open>formatters[collectionName] ?? ((document) => document)\<close>\<close>

definition formatData ::
  "('c, 'db) env \<Rightarrow> string \<Rightarrow> ref \<Rightarrow> ('c, 'db) world \<Rightarrow> ref \<times> ('c, 'db) world" where
  "formatData env name =
     (case formatters env name of
        Some f \<Rightarrow> f
      | None \<Rightarrow> (\<lambda>document w. (document, w)))"

text \<open>\<^verbatim>\<open>documents.map(formatData)\<close>\<close>

fun mapFormat ::
  "(ref \<Rightarrow> ('c, 'db) world \<Rightarrow> ref \<times> ('c, 'db) world) \<Rightarrow> ref list \<Rightarrow> ('c, 'db) world
     \<Rightarrow> ref list \<times> ('c, 'db) world" where
  "mapFormat f [] w = ([], w)"
| "mapFormat f (d # ds) w =
     (case f d w of
        (d', w1) \<Rightarrow> (case mapFormat f ds w1 of
                       (ds', w2) \<Rightarrow> (d' # ds', w2)))"

subsection \<open>The phases of \<^verbatim>\<open>Vulcan.mongoToSql\<close>\<close>

text \<open>
  \<^verbatim>\<open>schemaFields.filter((field) => tableFields.indexOf(field) < 0)\<close>, with
  \<^verbatim>\<open>tableFields = Object.keys(table.getFields())\<close>
\<close>

definition tableFields :: "table \<Rightarrow> string list" where
  "tableFields t = map fieldName (getFields t)"

definition skippedFields :: "collection \<Rightarrow> table \<Rightarrow> string list" where
  "skippedFields c t = filter (\<lambda>field. field \<notin> set (tableFields t)) (schemaFields c)"

text \<open>"...Building schema", up to the warning about skipped fields\<close>

definition buildSchema ::
  "('c, 'db) env \<Rightarrow> collection \<Rightarrow> ('c, 'db) world \<Rightarrow> table \<times> ('c, 'db) world" where
  "buildSchema env c w =
     (let w1 = console LevelLog BuildingSchema w;
          t = fromCollection env c;
          w2 = console LevelLog (MigratingFields (tableFields t)) w1;
          w3 = (if skippedFields c t \<noteq> []
                then console LevelWarn (SkippedFields (skippedFields c t)) w2
                else w2)
      in (t, w3))"

text \<open>
  "...Creating table": \<^verbatim>\<open>compile()\<close> and \<^verbatim>\<open>sql.unsafe\<close> are both inside the
  \<^verbatim>\<open>try\<close>; the handler prints and throws the error on.
\<close>

definition failedToCreateTable :: "table \<Rightarrow> ('c, 'db) world \<Rightarrow> ('c, 'db) world" where
  "failedToCreateTable t w =
     console LevelLog (ShowTable t) (console LevelError FailedToCreateTable w)"

definition createTable ::
  "('c, 'db) env \<Rightarrow> table \<Rightarrow> ('c, 'db) world \<Rightarrow> (jserror + unit) \<times> ('c, 'db) world" where
  "createTable env t w =
     (let w1 = console LevelLog CreatingTable w in
      case getSqlClientOrThrow env of
        Some e \<Rightarrow> (Inl e, w1)
      | None \<Rightarrow>
         (case compileQuery env (CreateTableQuery t) w1 of
            (Inl e, w2) \<Rightarrow> (Inl e, failedToCreateTable t w2)
          | (Inr compiled, w2) \<Rightarrow>
             (case sqlUnsafe env (CreateTableQuery t) compiled w2 of
                (Some e, w3) \<Rightarrow> (Inl e, failedToCreateTable t w3)
              | (None, w3) \<Rightarrow> (Inr (), w3))))"

text \<open>
  The loop over \<^verbatim>\<open>indexQueries\<close>: \<^verbatim>\<open>compile()\<close> and \<^verbatim>\<open>sql.unsafe\<close> for one
  index after the other, with no \<^verbatim>\<open>try\<close> around either.
\<close>

fun forIndexQueries ::
  "('c, 'db) env \<Rightarrow> query list \<Rightarrow> ('c, 'db) world \<Rightarrow> (jserror + unit) \<times> ('c, 'db) world" where
  "forIndexQueries env [] w = (Inr (), w)"
| "forIndexQueries env (indexQuery # rest) w =
     (case compileQuery env indexQuery w of
        (Inl e, w1) \<Rightarrow> (Inl e, w1)
      | (Inr compiled, w1) \<Rightarrow>
         (case sqlUnsafe env indexQuery compiled w1 of
            (Some e, w2) \<Rightarrow> (Inl e, w2)
          | (None, w2) \<Rightarrow> forIndexQueries env rest w2))"

text \<open>"...Creating indexes"\<close>

definition createIndexes ::
  "('c, 'db) env \<Rightarrow> table \<Rightarrow> ('c, 'db) world \<Rightarrow> (jserror + unit) \<times> ('c, 'db) world" where
  "createIndexes env t w =
     (let w1 = console LevelLog CreatingIndexes w;
          indexQueries = map (\<lambda>index. CreateIndexQuery t index) (getIndexes t);
          w2 = (if length indexQueries = 0 then console LevelWarn NoIndexesFound w1 else w1)
      in forIndexQueries env indexQueries w2)"

definition batchSize :: nat where
  "batchSize = 400"

text \<open>
  The callback given to \<^verbatim>\<open>forEachDocumentBatchInCollection\<close>. \<^verbatim>\<open>compile()\<close> is
  outside the \<^verbatim>\<open>try\<close>, \<^verbatim>\<open>sql.unsafe\<close> inside; the handler reads the
  \<^verbatim>\<open>_id\<close> of every document of the batch.
\<close>

definition callback ::
  "('c, 'db) env \<Rightarrow> string \<Rightarrow> table \<Rightarrow> ref list \<Rightarrow> ('c, 'db) world
     \<Rightarrow> (jserror + unit) \<times> ('c, 'db) world" where
  "callback env name t docs w =
     (let w1 = console LevelLog (MigratingDocuments (length docs) (count w)) w;
          w2 = w1\<lparr>count := count w1 + batchSize\<rparr>
      in case mapFormat (formatData env name) docs w2 of
           (formatted, w3) \<Rightarrow>
             (let query = InsertQuery t (map (heap w3) formatted) ConflictIgnore
              in case compileQuery env query w3 of
                   (Inl e, w4) \<Rightarrow> (Inl e, w4)
                 | (Inr compiled, w4) \<Rightarrow>
                    (case sqlUnsafe env query compiled w4 of
                       (Some e, w5) \<Rightarrow>
                         (let w6 = console LevelError ErrorImportingDocumentBatch w5;
                              w7 = console LevelError (ShowError e) w6
                          in (Inr (), w7\<lparr>errorIds := errorIds w7 @
                                map (\<lambda>d. getProp (heap w7 d) ''_id'') docs\<rparr>))
                     | (None, w5) \<Rightarrow> (Inr (), w5))))"

text \<open>
  Modelled from the spec: \<^verbatim>\<open>forEachDocumentBatchInCollection\<close>
  (\<^verbatim>\<open>migrations/migrationUtils\<close>) is not among the sources. The spec has the
  source collection streamed in fixed-size batches, in cursor order, one batch
  after the other; the callback is awaited, so an error it throws ends the
  iteration. \<open>batches n xs\<close> cuts \<open>xs\<close> into consecutive groups of \<open>n\<close>, the last one
  possibly shorter. The script always passes \<open>n = 400\<close>; for \<open>n = 0\<close>, which it never
  passes, the model yields no batch.
\<close>

function batches :: "nat \<Rightarrow> 'a list \<Rightarrow> 'a list list" where
  "batches n xs = (if n = 0 \<or> xs = [] then [] else take n xs # batches n (drop n xs))"
  by pat_completeness auto
termination
  by (relation "measure (\<lambda>(n, xs). length xs)") auto

declare batches.simps [simp del]

fun forEachBatch ::
  "(ref list \<Rightarrow> ('c, 'db) world \<Rightarrow> (jserror + unit) \<times> ('c, 'db) world) \<Rightarrow> ref list list
     \<Rightarrow> ('c, 'db) world \<Rightarrow> (jserror + unit) \<times> ('c, 'db) world" where
  "forEachBatch cb [] w = (Inr (), w)"
| "forEachBatch cb (b # bs) w =
     (case cb b w of
        (Inl e, w1) \<Rightarrow> (Inl e, w1)
      | (Inr u, w1) \<Rightarrow> forEachBatch cb bs w1)"

definition forEachDocumentBatchInCollection ::
  "collection \<Rightarrow> nat \<Rightarrow> (ref list \<Rightarrow> ('c, 'db) world \<Rightarrow> (jserror + unit) \<times> ('c, 'db) world)
     \<Rightarrow> ('c, 'db) world \<Rightarrow> (jserror + unit) \<times> ('c, 'db) world" where
  "forEachDocumentBatchInCollection c n cb w = forEachBatch cb (batches n (documents c)) w"

text \<open>"...Copying data"\<close>

definition copyData ::
  "('c, 'db) env \<Rightarrow> string \<Rightarrow> collection \<Rightarrow> table \<Rightarrow> ('c, 'db) world
     \<Rightarrow> (jserror + unit) \<times> ('c, 'db) world" where
  "copyData env name c t w =
     (let w1 = console LevelLog CopyingData w;
          w2 = w1\<lparr>errorIds := [], count := 0\<rparr>
      in forEachDocumentBatchInCollection c batchSize (callback env name t) w2)"

text \<open>The report of import errors and the closing line\<close>

definition finish :: "string \<Rightarrow> ('c, 'db) world \<Rightarrow> ('c, 'db) world" where
  "finish name w =
     (let w1 = (if errorIds w \<noteq> []
                then console LevelLog (ImportErrors (length (errorIds w)) (errorIds w)) w
                else w)
      in console LevelLog (FinishedMigrating name) w1)"

text \<open>
  \<^verbatim>\<open>Vulcan.mongoToSql\<close>. \<open>Inl e\<close>: the promise is rejected with \<open>e\<close>;
  \<open>Inr ()\<close>: the run reaches its last line.
\<close>

definition mongoToSql ::
  "('c, 'db) env \<Rightarrow> string \<Rightarrow> ('c, 'db) world \<Rightarrow> (jserror + unit) \<times> ('c, 'db) world" where
  "mongoToSql env name w =
     (let w1 = console LevelLog (MigratingCollection name) w;
          w2 = console LevelLog LookingUpCollection w1
      in case getCollection env name of
           None \<Rightarrow> (Inl (JsError (''Invalid collection: '' @ name)), w2)
         | Some c \<Rightarrow>
            (case buildSchema env c w2 of
               (t, w3) \<Rightarrow>
                 (case createTable env t w3 of
                    (Inl e, w4) \<Rightarrow> (Inl e, w4)
                  | (Inr u, w4) \<Rightarrow>
                     (case createIndexes env t w4 of
                        (Inl e, w5) \<Rightarrow> (Inl e, w5)
                      | (Inr u, w5) \<Rightarrow>
                         (case copyData env name c t w5 of
                            (Inl e, w6) \<Rightarrow> (Inl e, w6)
                          | (Inr u, w6) \<Rightarrow> (Inr (), finish name w6))))))"

subsection \<open>Reading a trace\<close>

text \<open>What a run printed and called: the part of the trace added between two worlds.\<close>

definition emitted :: "('c, 'db) world \<Rightarrow> ('c, 'db) world \<Rightarrow> 'c event list" where
  "emitted w w' = drop (length (trace w)) (trace w')"

text \<open>The phase an event belongs to (the states of the spec's state machine).\<close>

datatype phase = Lookup | SchemaBuilt | TableCreated | IndexesCreated | Copying | Done

fun phaseOfMessage :: "message \<Rightarrow> phase" where
  "phaseOfMessage (MigratingCollection n) = Lookup"
| "phaseOfMessage LookingUpCollection = Lookup"
| "phaseOfMessage BuildingSchema = SchemaBuilt"
| "phaseOfMessage (MigratingFields fs) = SchemaBuilt"
| "phaseOfMessage (SkippedFields fs) = SchemaBuilt"
| "phaseOfMessage CreatingTable = TableCreated"
| "phaseOfMessage FailedToCreateTable = TableCreated"
| "phaseOfMessage (ShowTable t) = TableCreated"
| "phaseOfMessage CreatingIndexes = IndexesCreated"
| "phaseOfMessage NoIndexesFound = IndexesCreated"
| "phaseOfMessage CopyingData = Copying"
| "phaseOfMessage (MigratingDocuments n k) = Copying"
| "phaseOfMessage ErrorImportingDocumentBatch = Copying"
| "phaseOfMessage (ShowError e) = Copying"
| "phaseOfMessage (ImportErrors n ids) = Done"
| "phaseOfMessage (FinishedMigrating n) = Done"

fun phaseOfQuery :: "query \<Rightarrow> phase" where
  "phaseOfQuery (CreateTableQuery t) = TableCreated"
| "phaseOfQuery (CreateIndexQuery t i) = IndexesCreated"
| "phaseOfQuery (InsertQuery t ds s) = Copying"

fun phaseOf :: "'c event \<Rightarrow> phase" where
  "phaseOf (Console l m) = phaseOfMessage m"
| "phaseOf (Compile q) = phaseOfQuery q"
| "phaseOf (Unsafe q c r) = phaseOfQuery q"


text \<open>
  The \<^verbatim>\<open>_id\<close>s of the documents of the INSERT statements sent to \<^verbatim>\<open>sql.unsafe\<close>:
  of all of them, of those whose execution threw, of those whose execution
  returned.
\<close>

definition ids :: "doc list \<Rightarrow> jsval list" where
  "ids ds = map (\<lambda>d. getProp d ''_id'') ds"

fun attemptedIdsOf :: "'c event \<Rightarrow> jsval list" where
  "attemptedIdsOf (Unsafe (InsertQuery t ds s) c r) = ids ds"
| "attemptedIdsOf ev = []"

fun failedIdsOf :: "'c event \<Rightarrow> jsval list" where
  "failedIdsOf (Unsafe (InsertQuery t ds s) c (Some e)) = ids ds"
| "failedIdsOf ev = []"

fun succeededIdsOf :: "'c event \<Rightarrow> jsval list" where
  "succeededIdsOf (Unsafe (InsertQuery t ds s) c None) = ids ds"
| "succeededIdsOf ev = []"

definition attemptedIds :: "'c event list \<Rightarrow> jsval list" where
  "attemptedIds evs = concat (map attemptedIdsOf evs)"

definition failedIds :: "'c event list \<Rightarrow> jsval list" where
  "failedIds evs = concat (map failedIdsOf evs)"

definition succeededIds :: "'c event list \<Rightarrow> jsval list" where
  "succeededIds evs = concat (map succeededIdsOf evs)"

text \<open>The document lists of the \<^verbatim>\<open>InsertQuery\<close> objects compiled, in order.\<close>

fun insertedDocsOf :: "'c event \<Rightarrow> doc list list" where
  "insertedDocsOf (Compile (InsertQuery t ds s)) = [ds]"
| "insertedDocsOf ev = []"

definition insertedDocs :: "'c event list \<Rightarrow> doc list list" where
  "insertedDocs evs = concat (map insertedDocsOf evs)"

text \<open>
  The conflict strategy of an \<^verbatim>\<open>InsertQuery\<close> (no strategy for the other queries), and
  the query of a call in the trace.
\<close>

fun insertStrategies :: "query \<Rightarrow> conflictStrategy list" where
  "insertStrategies (InsertQuery t ds s) = [s]"
| "insertStrategies q = []"

fun queryOf :: "'c event \<Rightarrow> query list" where
  "queryOf (Console l m) = []"
| "queryOf (Compile q) = [q]"
| "queryOf (Unsafe q c r) = [q]"

text \<open>
  The parameter limit of the Postgres protocol, as the comment above
  \<^verbatim>\<open>batchSize\<close> has it, and the number of columns of a table.
\<close>

definition maxParameters :: nat where
  "maxParameters = 65534"

definition fieldCount :: "table \<Rightarrow> nat" where
  "fieldCount t = length (getFields t)"

text \<open>
  The calls of the index-creation phase in a trace, in order: the \<^verbatim>\<open>compile()\<close> of a
  \<^verbatim>\<open>CreateIndexQuery\<close> and the \<^verbatim>\<open>sql.unsafe\<close> of its compiled form. \<open>indexPlan t\<close> is
  the sequence of these calls when every index of \<open>t\<close> is compiled and then executed,
  one index after the other in the order of \<^verbatim>\<open>table.getIndexes()\<close>.
\<close>

datatype call = Compiled query | Executed query

fun indexCallsOf :: "'c event \<Rightarrow> call list" where
  "indexCallsOf (Compile (CreateIndexQuery t i)) = [Compiled (CreateIndexQuery t i)]"
| "indexCallsOf (Unsafe (CreateIndexQuery t i) c r) = [Executed (CreateIndexQuery t i)]"
| "indexCallsOf ev = []"

definition indexCalls :: "'c event list \<Rightarrow> call list" where
  "indexCalls evs = concat (map indexCallsOf evs)"

definition indexPlan :: "table \<Rightarrow> call list" where
  "indexPlan t =
     concat (map (\<lambda>index. [Compiled (CreateIndexQuery t index), Executed (CreateIndexQuery t index)])
              (getIndexes t))"

text \<open>
  The objects among \<open>ds\<close> whose \<^verbatim>\<open>scoreExceeded75Date\<close> is a boolean in the store
  \<open>h\<close>, each of them once.
\<close>

definition booleanDates :: "(ref \<Rightarrow> doc) \<Rightarrow> ref list \<Rightarrow> ref list" where
  "booleanDates h ds =
     filter (\<lambda>d. typeofBoolean (getProp (h d) ''scoreExceeded75Date'')) (remdups ds)"

subsection \<open>Auxiliary notions for the proofs\<close>

text \<open>
  The error a call recorded in the trace ended with: a \<^verbatim>\<open>compile()\<close> that
  throws, or a \<^verbatim>\<open>sql.unsafe\<close> that throws.
\<close>

fun eventError :: "('c, 'db) env \<Rightarrow> 'c event \<Rightarrow> jserror option" where
  "eventError env (Console l m) = None"
| "eventError env (Compile q) = (case compile env q of Inl e \<Rightarrow> Some e | Inr c \<Rightarrow> None)"
| "eventError env (Unsafe q c r) = r"

text \<open>The world of the callback after \<^verbatim>\<open>documents.map(formatData)\<close>, and the query it builds.\<close>

definition afterFormat ::
  "('c, 'db) env \<Rightarrow> string \<Rightarrow> ref list \<Rightarrow> ('c, 'db) world \<Rightarrow> ('c, 'db) world" where
  "afterFormat env name b w =
     snd (mapFormat (formatData env name) b
       ((console LevelLog (MigratingDocuments (length b) (count w)) w)
          \<lparr>count := count w + batchSize\<rparr>))"

definition insertQueryOf ::
  "('c, 'db) env \<Rightarrow> string \<Rightarrow> table \<Rightarrow> ref list \<Rightarrow> ('c, 'db) world \<Rightarrow> query" where
  "insertQueryOf env name t b w =
     InsertQuery t (map (heap (afterFormat env name b w)) b) ConflictIgnore"

text \<open>What the phases add to the trace.\<close>

definition callbackEvents ::
  "('c, 'db) env \<Rightarrow> string \<Rightarrow> table \<Rightarrow> ref list \<Rightarrow> ('c, 'db) world \<Rightarrow> 'c event list" where
  "callbackEvents env name t b w =
     [Console LevelLog (MigratingDocuments (length b) (count w)),
      Compile (insertQueryOf env name t b w)] @
     (case compile env (insertQueryOf env name t b w) of
        Inl e \<Rightarrow> []
      | Inr c \<Rightarrow>
         (case fst (unsafe env c (db w)) of
            None \<Rightarrow> [Unsafe (insertQueryOf env name t b w) c None]
          | Some e \<Rightarrow> [Unsafe (insertQueryOf env name t b w) c (Some e),
                       Console LevelError ErrorImportingDocumentBatch,
                       Console LevelError (ShowError e)]))"

definition lookupEvents :: "string \<Rightarrow> 'c event list" where
  "lookupEvents name =
     [Console LevelLog (MigratingCollection name), Console LevelLog LookingUpCollection]"

definition afterLookup :: "string \<Rightarrow> ('c, 'db) world \<Rightarrow> ('c, 'db) world" where
  "afterLookup name w =
     console LevelLog LookingUpCollection (console LevelLog (MigratingCollection name) w)"

definition schemaEvents :: "collection \<Rightarrow> table \<Rightarrow> 'c event list" where
  "schemaEvents c t =
     [Console LevelLog BuildingSchema, Console LevelLog (MigratingFields (tableFields t))] @
     (if skippedFields c t \<noteq> []
      then [Console LevelWarn (SkippedFields (skippedFields c t))] else [])"

definition finishEvents :: "string \<Rightarrow> ('c, 'db) world \<Rightarrow> 'c event list" where
  "finishEvents name w =
     (if errorIds w \<noteq> []
      then [Console LevelLog (ImportErrors (length (errorIds w)) (errorIds w))]
      else []) @ [Console LevelLog (FinishedMigrating name)]"

text \<open>The results of the phases of a run on a collection \<open>c\<close>, one after the other.\<close>

definition afterCreateTable ::
  "('c, 'db) env \<Rightarrow> string \<Rightarrow> collection \<Rightarrow> ('c, 'db) world
     \<Rightarrow> (jserror + unit) \<times> ('c, 'db) world" where
  "afterCreateTable env name c w =
     createTable env (fromCollection env c) (snd (buildSchema env c (afterLookup name w)))"

definition afterCreateIndexes ::
  "('c, 'db) env \<Rightarrow> string \<Rightarrow> collection \<Rightarrow> ('c, 'db) world
     \<Rightarrow> (jserror + unit) \<times> ('c, 'db) world" where
  "afterCreateIndexes env name c w =
     createIndexes env (fromCollection env c) (snd (afterCreateTable env name c w))"

definition afterCopyData ::
  "('c, 'db) env \<Rightarrow> string \<Rightarrow> collection \<Rightarrow> ('c, 'db) world
     \<Rightarrow> (jserror + unit) \<times> ('c, 'db) world" where
  "afterCopyData env name c w =
     copyData env name c (fromCollection env c) (snd (afterCreateIndexes env name c w))"

text \<open>
  The shape of the trace of a run on a collection \<open>c\<close>: the events of table
  creation \<open>tb\<close>, of index creation \<open>ix\<close>, of copying \<open>cp\<close> and of the final
  report \<open>fin\<close>, and what the result \<open>r\<close> and the final world \<open>w'\<close> have to do
  with them.
\<close>

definition runShape ::
  "('c, 'db) env \<Rightarrow> string \<Rightarrow> collection \<Rightarrow> ('c, 'db) world \<Rightarrow> jserror + unit \<Rightarrow> ('c, 'db) world
     \<Rightarrow> 'c event list \<Rightarrow> 'c event list \<Rightarrow> 'c event list \<Rightarrow> 'c event list \<Rightarrow> bool" where
  "runShape env name c w r w' tb ix cp fin =
    (trace w' = trace w @ (lookupEvents name @ schemaEvents c (fromCollection env c) @
                           tb @ ix @ cp @ fin) \<and>
     (\<forall>ev\<in>set tb. phaseOf ev = TableCreated) \<and>
     (\<forall>ev\<in>set ix. phaseOf ev = IndexesCreated) \<and>
     (\<forall>ev\<in>set cp. phaseOf ev = Copying) \<and>
     (\<forall>ev\<in>set fin. phaseOf ev = Done) \<and>
     (\<forall>q c e. Unsafe q c (Some e) \<in> set tb \<longrightarrow> r = Inl e \<and> ix = [] \<and> cp = [] \<and> fin = []) \<and>
     (\<forall>ev\<in>set ix. \<forall>e. eventError env ev = Some e \<longrightarrow>
         r = Inl e \<and> last ix = ev \<and> cp = [] \<and> fin = []) \<and>
     (\<forall>ev\<in>set cp. \<forall>q\<in>set (queryOf ev).
         \<exists>ds. q = InsertQuery (fromCollection env c) ds ConflictIgnore \<and> length ds \<le> batchSize) \<and>
     (cp \<noteq> [] \<longrightarrow> errorIds w' = failedIds cp \<and>
         (\<forall>e. r = Inl e \<longrightarrow>
            (\<exists>ds. compile env (InsertQuery (fromCollection env c) ds ConflictIgnore) = Inl e)) \<and>
         (r = Inr () \<longrightarrow> attemptedIds cp = ids (map (heap w) (documents c)))) \<and>
     prefix (attemptedIds cp) (ids (map (heap w) (documents c))) \<and>
     (formatters env name = None \<longrightarrow>
         prefix (insertedDocs cp) (map (map (heap w)) (batches batchSize (documents c))) \<and>
         (r = Inr () \<longrightarrow>
            insertedDocs cp = map (map (heap w)) (batches batchSize (documents c)))))"

text \<open>
  What formatting may have done to the objects of a store \<open>h\<close>, giving \<open>h'\<close>: nothing but
  a boolean \<^verbatim>\<open>scoreExceeded75Date\<close> turned into a date and a falsy \<^verbatim>\<open>title\<close> turned
  into the empty string. A document is \<open>clean\<close> when the formatter of \<open>Posts\<close> finds
  nothing to change in it but, at most, an empty title to write again.
\<close>

definition repaired :: "(ref \<Rightarrow> doc) \<Rightarrow> (ref \<Rightarrow> doc) \<Rightarrow> bool" where
  "repaired h h' =
     (\<forall>x. (\<forall>k. k \<noteq> ''scoreExceeded75Date'' \<longrightarrow> k \<noteq> ''title'' \<longrightarrow>
                getProp (h' x) k = getProp (h x) k) \<and>
          (\<not> typeofBoolean (getProp (h x) ''scoreExceeded75Date'') \<longrightarrow>
             getProp (h' x) ''scoreExceeded75Date'' = getProp (h x) ''scoreExceeded75Date'') \<and>
          (getProp (h' x) ''scoreExceeded75Date'' \<noteq> getProp (h x) ''scoreExceeded75Date'' \<longrightarrow>
             (\<exists>t. getProp (h' x) ''scoreExceeded75Date'' = JDate t)) \<and>
          (\<not> falsy (getProp (h x) ''title'') \<longrightarrow>
             getProp (h' x) ''title'' = getProp (h x) ''title'') \<and>
          (getProp (h' x) ''title'' \<noteq> getProp (h x) ''title'' \<longrightarrow>
             getProp (h' x) ''title'' = JStr '''') \<and>
          (\<not> typeofBoolean (getProp (h x) ''scoreExceeded75Date'') \<longrightarrow>
           \<not> falsy (getProp (h x) ''title'') \<longrightarrow> h' x = h x))"

definition clean :: "doc \<Rightarrow> bool" where
  "clean d = (\<not> typeofBoolean (getProp d ''scoreExceeded75Date'') \<and>
              (falsy (getProp d ''title'') \<longrightarrow> getProp d ''title'' = JStr ''''))"

subsection \<open>The destination as the spec describes it\<close>

text \<open>
  Modelled from the spec: what an INSERT with conflict strategy "ignore" does to the
  destination is decided by \<^verbatim>\<open>InsertQuery\<close> and the relational store, neither among
  the sources. The spec: the run is additive toward the destination, and "ignore"
  skips the rows that violate a uniqueness constraint (a primary key already
  migrated). With \<open>rowsOf d\<close> the rows of the destination \<open>d\<close> by primary key
  (\<^verbatim>\<open>_id\<close>), a client is additive when no statement changes or removes a row
  there is, a statement adds rows only for the documents of an INSERT, and after an
  INSERT has returned each of its documents has a row.
\<close>

fun insertKeys :: "query \<Rightarrow> jsval set" where
  "insertKeys (InsertQuery t ds s) = set (ids ds)"
| "insertKeys q = {}"

definition additive :: "('c, 'db) env \<Rightarrow> ('db \<Rightarrow> jsval \<rightharpoonup> 'r) \<Rightarrow> bool" where
  "additive env rowsOf =
     (\<forall>q c d. compile env q = Inr c \<longrightarrow>
        rowsOf d \<subseteq>\<^sub>m rowsOf (snd (unsafe env c d)) \<and>
        dom (rowsOf (snd (unsafe env c d))) \<subseteq> dom (rowsOf d) \<union> insertKeys q \<and>
        (fst (unsafe env c d) = None \<longrightarrow> insertKeys q \<subseteq> dom (rowsOf (snd (unsafe env c d)))))"

subsection \<open>A small installation, for concrete runs\<close>

text \<open>
  Two collections with documents, one whose derived table has no field. The
  example destination keeps its rows by \<^verbatim>\<open>_id\<close> and a number of transient
  failures still to come: while that number is positive an INSERT throws and
  leaves the rows alone. Statements are "compiled" to themselves; as the spec
  has it, \<^verbatim>\<open>CreateTableQuery\<close> does not compile for a table without fields.
\<close>

definition exampleTable :: "string \<Rightarrow> table" where
  "exampleTable n =
     \<lparr>getName = n,
      getFields = [\<lparr>fieldName = ''_id'', fieldType = ''VARCHAR(27)'', nullable = False\<rparr>,
                   \<lparr>fieldName = ''title'', fieldType = ''TEXT'', nullable = True\<rparr>,
                   \<lparr>fieldName = ''scoreExceeded75Date'', fieldType = ''TIMESTAMPTZ'',
                     nullable = True\<rparr>],
      getIndexes = [\<lparr>indexName = ''idx_title'', indexFields = [''title''], isUnique = False\<rparr>]\<rparr>"

definition emptyTable :: table where
  "emptyTable = \<lparr>getName = ''Empty'', getFields = [], getIndexes = []\<rparr>"

definition wideTable :: table where
  "wideTable =
     \<lparr>getName = ''Wide'',
      getFields = map (\<lambda>i. \<lparr>fieldName = replicate (Suc i) (CHR ''f''), fieldType = ''TEXT'',
                             nullable = True\<rparr>) [0..<164],
      getIndexes = []\<rparr>"

definition examplePosts :: collection where
  "examplePosts =
     \<lparr>collectionName = ''Posts'',
      schemaFields = [''_id'', ''title'', ''scoreExceeded75Date'', ''contents''],
      documents = [0, 1]\<rparr>"

definition exampleUsers :: collection where
  "exampleUsers =
     \<lparr>collectionName = ''Users'',
      schemaFields = [''_id'', ''title''],
      documents = [2]\<rparr>"

definition exampleEmpty :: collection where
  "exampleEmpty = \<lparr>collectionName = ''Empty'', schemaFields = [''votes''], documents = []\<rparr>"

definition exampleHeap :: "ref \<Rightarrow> doc" where
  "exampleHeap r =
     (if r = 0 then [(''_id'', JStr ''p1''), (''title'', JStr ''First''),
                     (''scoreExceeded75Date'', JBool True)]
      else if r = 1 then [(''_id'', JStr ''p2''), (''scoreExceeded75Date'', JBool False)]
      else if r = 2 then [(''_id'', JStr ''u1''), (''title'', JStr ''Ann'')]
      else [])"

type_synonym exampleDb = "nat \<times> (jsval \<times> doc) list"

definition exampleRows :: "exampleDb \<Rightarrow> jsval \<rightharpoonup> doc" where
  "exampleRows d = map_of (snd d)"

fun insertIgnore :: "doc list \<Rightarrow> (jsval \<times> doc) list \<Rightarrow> (jsval \<times> doc) list" where
  "insertIgnore [] rows = rows"
| "insertIgnore (d # ds) rows =
     insertIgnore ds (if getProp d ''_id'' \<in> fst ` set rows then rows
                      else rows @ [(getProp d ''_id'', d)])"

fun exampleUnsafe :: "query \<Rightarrow> exampleDb \<Rightarrow> jserror option \<times> exampleDb" where
  "exampleUnsafe (InsertQuery t ds ConflictIgnore) (n, rows) =
     (if 0 < n then (Some (JsError ''connection reset''), (n - 1, rows))
      else (None, (n, insertIgnore ds rows)))"
| "exampleUnsafe (InsertQuery t ds ConflictError) (n, rows) =
     (if 0 < n then (Some (JsError ''connection reset''), (n - 1, rows))
      else if distinct (ids ds) \<and> set (ids ds) \<inter> fst ` set rows = {}
      then (None, (n, insertIgnore ds rows))
      else (Some (JsError ''duplicate key value violates unique constraint''), (n, rows)))"
| "exampleUnsafe q d = (None, d)"

fun exampleCompile :: "query \<Rightarrow> jserror + query" where
  "exampleCompile (CreateTableQuery t) =
     (if getFields t = [] then Inl (JsError ''Cannot create a table with no fields'')
      else Inr (CreateTableQuery t))"
| "exampleCompile q = Inr q"

definition exampleEnv :: "(query, exampleDb) env" where
  "exampleEnv =
     \<lparr>getCollection = (\<lambda>n. if n = ''Posts'' then Some examplePosts
                            else if n = ''Users'' then Some exampleUsers
                            else if n = ''Empty'' then Some exampleEmpty
                            else None),
      fromCollection = (\<lambda>c. if collectionName c = ''Empty'' then emptyTable
                             else exampleTable (collectionName c)),
      getSqlClientOrThrow = None,
      compile = exampleCompile,
      unsafe = exampleUnsafe,
      now = (\<lambda>k. 1700000000000 + int k)\<rparr>"

text \<open>
  The same installation with a destination that refuses one kind of statement: the
  \<^verbatim>\<open>CREATE INDEX\<close> of the index \<open>idx_title\<close>, on tables with three indexes of
  which it is the second, or every \<^verbatim>\<open>CREATE TABLE\<close>.
\<close>

definition indexedTable :: "string \<Rightarrow> table" where
  "indexedTable n =
     (exampleTable n)\<lparr>getIndexes :=
        [\<lparr>indexName = ''idx_id'', indexFields = [''_id''], isUnique = True\<rparr>,
         \<lparr>indexName = ''idx_title'', indexFields = [''title''], isUnique = False\<rparr>,
         \<lparr>indexName = ''idx_date'', indexFields = [''scoreExceeded75Date''], isUnique = False\<rparr>]\<rparr>"

fun refuseCreateIndex :: "query \<Rightarrow> exampleDb \<Rightarrow> jserror option \<times> exampleDb" where
  "refuseCreateIndex (CreateIndexQuery t i) d =
     (if indexName i = ''idx_title'' then (Some (JsError ''could not create index''), d)
      else (None, d))"
| "refuseCreateIndex q d = exampleUnsafe q d"

fun refuseCreateTable :: "query \<Rightarrow> exampleDb \<Rightarrow> jserror option \<times> exampleDb" where
  "refuseCreateTable (CreateTableQuery t) d = (Some (JsError ''permission denied''), d)"
| "refuseCreateTable q d = exampleUnsafe q d"

definition indexRefusedEnv :: "(query, exampleDb) env" where
  "indexRefusedEnv =
     exampleEnv\<lparr>fromCollection := (\<lambda>c. indexedTable (collectionName c)),
                 unsafe := refuseCreateIndex\<rparr>"

definition tableRefusedEnv :: "(query, exampleDb) env" where
  "tableRefusedEnv = exampleEnv\<lparr>unsafe := refuseCreateTable\<rparr>"

definition exampleWorld :: "nat \<Rightarrow> (query, exampleDb) world" where
  "exampleWorld n =
     \<lparr>heap = exampleHeap, db = (n, []), trace = [], clock = 0, errorIds = [], count = 0\<rparr>"

text \<open>
  A world with one transient failure to come, and the world a second run on \<open>Posts\<close>
  starts from: what the first run left, with the documents as the source produces them.
\<close>

definition flakyWorld :: "(query, exampleDb) world" where
  "flakyWorld = exampleWorld 1"

definition rerun :: "(query, exampleDb) world \<Rightarrow> (query, exampleDb) world" where
  "rerun w = (snd (mongoToSql exampleEnv ''Posts'' w))\<lparr>heap := heap w\<rparr>"



section \<open>Auxiliary lemmas\<close>

lemma emit_sel [simp]:
  "heap (emit e w) = heap w" "db (emit e w) = db w" "trace (emit e w) = trace w @ [e]"
  "clock (emit e w) = clock w" "errorIds (emit e w) = errorIds w" "count (emit e w) = count w"
  by (simp_all add: emit_def)

lemma console_sel [simp]:
  "heap (console l m w) = heap w" "db (console l m w) = db w"
  "trace (console l m w) = trace w @ [Console l m]"
  "clock (console l m w) = clock w" "errorIds (console l m w) = errorIds w"
  "count (console l m w) = count w"
  by (simp_all add: console_def)

lemma assign_sel [simp]:
  "heap (assign r k v w) = (heap w)(r := setProp (heap w r) k v)" "db (assign r k v w) = db w"
  "trace (assign r k v w) = trace w"
  "clock (assign r k v w) = clock w" "errorIds (assign r k v w) = errorIds w"
  "count (assign r k v w) = count w"
  by (simp_all add: assign_def)

lemma getProp_setProp: "getProp (setProp d k v) k' = (if k' = k then v else getProp d k')"
  by (simp add: getProp_def setProp_def update_conv')

lemma formatPosts_fst: "fst (formatPosts env r w) = r"
  by (simp add: formatPosts_def Let_def)

lemma formatPosts_frame:
  "db (snd (formatPosts env r w)) = db w"
  "trace (snd (formatPosts env r w)) = trace w"
  "errorIds (snd (formatPosts env r w)) = errorIds w"
  "count (snd (formatPosts env r w)) = count w"
  by (simp_all add: formatPosts_def Let_def dateNow_def)

lemma formatPosts_other_ref:
  "r' \<noteq> r \<Longrightarrow> heap (snd (formatPosts env r w)) r' = heap w r'"
  by (simp add: formatPosts_def Let_def dateNow_def)

lemma formatPosts_other_prop:
  "k \<noteq> ''scoreExceeded75Date'' \<Longrightarrow> k \<noteq> ''title'' \<Longrightarrow>
   getProp (heap (snd (formatPosts env r w)) r') k = getProp (heap w r') k"
  by (simp add: formatPosts_def Let_def dateNow_def getProp_setProp)

lemma formatPosts_date:
  "getProp (heap (snd (formatPosts env r w)) r) ''scoreExceeded75Date'' =
     (if typeofBoolean (getProp (heap w r) ''scoreExceeded75Date'')
      then JDate (now env (clock w))
      else getProp (heap w r) ''scoreExceeded75Date'')"
  by (simp add: formatPosts_def Let_def dateNow_def getProp_setProp)

lemma formatPosts_clock:
  "clock (snd (formatPosts env r w)) =
     (if typeofBoolean (getProp (heap w r) ''scoreExceeded75Date'') then Suc (clock w) else clock w)"
  by (simp add: formatPosts_def Let_def dateNow_def)

lemma formatPosts_date_other:
  "r' \<noteq> r \<or> \<not> typeofBoolean (getProp (heap w r') ''scoreExceeded75Date'') \<Longrightarrow>
   getProp (heap (snd (formatPosts env r w)) r') ''scoreExceeded75Date'' =
   getProp (heap w r') ''scoreExceeded75Date''"
  by (cases "r' = r") (auto simp: formatPosts_date formatPosts_other_ref)

lemma formatData_Posts: "formatData env ''Posts'' = formatPosts env"
  by (simp add: formatData_def formatters_def)

lemma formatData_identity: "formatters env name = None \<Longrightarrow> formatData env name r w = (r, w)"
  by (simp add: formatData_def)

lemma formatData_cases:
  "(name = ''Posts'' \<and> formatData env name = formatPosts env) \<or>
   (formatters env name = None \<and> formatData env name = (\<lambda>r w. (r, w)))"
  by (simp add: formatData_def formatters_def)

lemma formatData_fst: "fst (formatData env name r w) = r"
  using formatData_cases [of name env] by (auto simp: formatPosts_fst)

lemma formatData_frame:
  "db (snd (formatData env name r w)) = db w"
  "trace (snd (formatData env name r w)) = trace w"
  "errorIds (snd (formatData env name r w)) = errorIds w"
  "count (snd (formatData env name r w)) = count w"
  using formatData_cases [of name env] by (auto simp: formatPosts_frame)

lemma formatData_other_prop:
  "k \<noteq> ''scoreExceeded75Date'' \<Longrightarrow> k \<noteq> ''title'' \<Longrightarrow>
   getProp (heap (snd (formatData env name r w)) r') k = getProp (heap w r') k"
  using formatData_cases [of name env] by (auto simp: formatPosts_other_prop)

lemma mapFormat_identity:
  "formatters env name = None \<Longrightarrow> mapFormat (formatData env name) ds w = (ds, w)"
  by (induction ds arbitrary: w) (simp_all add: formatData_identity)

lemma mapFormat_fst: "fst (mapFormat (formatData env name) ds w) = ds"
proof (induction ds arbitrary: w)
  case Nil
  show ?case by simp
next
  case (Cons d ds)
  obtain d' w1 where f: "formatData env name d w = (d', w1)" by (cases "formatData env name d w")
  obtain ds' w2 where m: "mapFormat (formatData env name) ds w1 = (ds', w2)"
    by (cases "mapFormat (formatData env name) ds w1")
  from f have "d' = d" using formatData_fst [of env name d w] by simp
  moreover from m have "ds' = ds" using Cons.IH [of w1] by simp
  ultimately show ?case using f m by simp
qed

lemma mapFormat_frame:
  "db (snd (mapFormat (formatData env name) ds w)) = db w \<and>
   trace (snd (mapFormat (formatData env name) ds w)) = trace w \<and>
   errorIds (snd (mapFormat (formatData env name) ds w)) = errorIds w \<and>
   count (snd (mapFormat (formatData env name) ds w)) = count w"
proof (induction ds arbitrary: w)
  case Nil
  show ?case by simp
next
  case (Cons d ds)
  obtain d' w1 where f: "formatData env name d w = (d', w1)" by (cases "formatData env name d w")
  obtain ds' w2 where m: "mapFormat (formatData env name) ds w1 = (ds', w2)"
    by (cases "mapFormat (formatData env name) ds w1")
  from f have "db w1 = db w" "trace w1 = trace w" "errorIds w1 = errorIds w" "count w1 = count w"
    using formatData_frame [of env name d w] by simp_all
  moreover from m have "db w2 = db w1" "trace w2 = trace w1" "errorIds w2 = errorIds w1"
      "count w2 = count w1"
    using Cons.IH [of w1] by simp_all
  ultimately show ?case using f m by simp
qed

lemma mapFormat_other_prop:
  "k \<noteq> ''scoreExceeded75Date'' \<Longrightarrow> k \<noteq> ''title'' \<Longrightarrow>
   getProp (heap (snd (mapFormat (formatData env name) ds w)) r) k = getProp (heap w r) k"
proof (induction ds arbitrary: w)
  case Nil
  show ?case by simp
next
  case (Cons d ds)
  obtain d' w1 where f: "formatData env name d w = (d', w1)" by (cases "formatData env name d w")
  obtain ds' w2 where m: "mapFormat (formatData env name) ds w1 = (ds', w2)"
    by (cases "mapFormat (formatData env name) ds w1")
  from f Cons.prems have "getProp (heap w1 r) k = getProp (heap w r) k"
    using formatData_other_prop [of k env name d w r] by simp
  moreover from m Cons.prems have "getProp (heap w2 r) k = getProp (heap w1 r) k"
    using Cons.IH [of w1] by simp
  ultimately show ?case using f m by simp
qed

lemma mapFormat_Posts_keeps:
  "\<not> typeofBoolean (getProp (heap w r) ''scoreExceeded75Date'') \<Longrightarrow>
   getProp (heap (snd (mapFormat (formatPosts env) ds w)) r) ''scoreExceeded75Date'' =
   getProp (heap w r) ''scoreExceeded75Date''"
proof (induction ds arbitrary: w)
  case Nil
  show ?case by simp
next
  case (Cons d ds)
  obtain d' w1 where f: "formatPosts env d w = (d', w1)" by (cases "formatPosts env d w")
  obtain ds' w2 where m: "mapFormat (formatPosts env) ds w1 = (ds', w2)"
    by (cases "mapFormat (formatPosts env) ds w1")
  from f Cons.prems have 1: "getProp (heap w1 r) ''scoreExceeded75Date'' =
      getProp (heap w r) ''scoreExceeded75Date''"
    using formatPosts_date_other [of r d w env] by simp
  with Cons.prems m have "getProp (heap w2 r) ''scoreExceeded75Date'' =
      getProp (heap w1 r) ''scoreExceeded75Date''"
    using Cons.IH [of w1] by simp
  with 1 show ?case using f m by simp
qed

lemma afterFormat_frame:
  "db (afterFormat env name b w) = db w"
  "trace (afterFormat env name b w) =
     trace w @ [Console LevelLog (MigratingDocuments (length b) (count w))]"
  "errorIds (afterFormat env name b w) = errorIds w"
  using mapFormat_frame [of env name b "(console LevelLog (MigratingDocuments (length b) (count w)) w)
          \<lparr>count := count w + batchSize\<rparr>"]
  by (simp_all add: afterFormat_def)

lemma afterFormat_other_prop:
  "k \<noteq> ''scoreExceeded75Date'' \<Longrightarrow> k \<noteq> ''title'' \<Longrightarrow>
   getProp (heap (afterFormat env name b w) x) k = getProp (heap w x) k"
  using mapFormat_other_prop [of k env name b "(console LevelLog (MigratingDocuments (length b) (count w)) w)
          \<lparr>count := count w + batchSize\<rparr>" x]
  by (simp add: afterFormat_def)

lemma afterFormat_identity:
  "formatters env name = None \<Longrightarrow> heap (afterFormat env name b w) = heap w"
  by (simp add: afterFormat_def mapFormat_identity)

lemma callback_unfold:
  "callback env name t b w =
     (case compile env (insertQueryOf env name t b w) of
        Inl e \<Rightarrow> (Inl e, emit (Compile (insertQueryOf env name t b w)) (afterFormat env name b w))
      | Inr c \<Rightarrow>
         (case sqlUnsafe env (insertQueryOf env name t b w) c
                 (emit (Compile (insertQueryOf env name t b w)) (afterFormat env name b w)) of
            (Some e, w5) \<Rightarrow>
              (Inr (), (console LevelError (ShowError e)
                          (console LevelError ErrorImportingDocumentBatch w5))
                 \<lparr>errorIds := errorIds w5 @ map (\<lambda>d. getProp (heap w5 d) ''_id'') b\<rparr>)
          | (None, w5) \<Rightarrow> (Inr (), w5)))"
proof -
  let ?w2 = "(console LevelLog (MigratingDocuments (length b) (count w)) w)
          \<lparr>count := count w + batchSize\<rparr>"
  obtain formatted w3 where m: "mapFormat (formatData env name) b ?w2 = (formatted, w3)"
    by (cases "mapFormat (formatData env name) b ?w2")
  have fm: "formatted = b" using m mapFormat_fst [of env name b ?w2] by simp
  have w3: "afterFormat env name b w = w3" using m by (simp add: afterFormat_def)
  show ?thesis
    unfolding insertQueryOf_def w3
    by (simp add: callback_def Let_def m fm compileQuery_def split: sum.splits prod.splits option.splits)
qed

lemma emittedI: "trace w' = trace w @ evs \<Longrightarrow> emitted w w' = evs"
  by (simp add: emitted_def)

lemma trace_emitted: "trace w' = trace w @ evs \<Longrightarrow> trace w' = trace w @ emitted w w'"
  by (simp add: emitted_def)

lemma callback_trace:
  "trace (snd (callback env name t b w)) = trace w @ callbackEvents env name t b w"
  by (simp add: callback_unfold callbackEvents_def sqlUnsafe_def afterFormat_frame
      split: sum.splits prod.splits option.splits)

lemma callback_fst:
  "fst (callback env name t b w) =
     (case compile env (insertQueryOf env name t b w) of Inl e \<Rightarrow> Inl e | Inr c \<Rightarrow> Inr ())"
  by (simp add: callback_unfold split: sum.splits prod.splits option.splits)

lemma callback_heap:
  "heap (snd (callback env name t b w)) = heap (afterFormat env name b w)"
  by (simp add: callback_unfold sqlUnsafe_def split: sum.splits prod.splits option.splits)

lemma ids_afterFormat:
  "ids (map (heap (afterFormat env name b w)) ds) = ids (map (heap w) ds)"
  by (simp add: ids_def afterFormat_other_prop)

lemma callback_errorIds:
  "errorIds (snd (callback env name t b w)) =
     errorIds w @ failedIds (callbackEvents env name t b w)"
  by (simp add: callback_unfold callbackEvents_def sqlUnsafe_def afterFormat_frame failedIds_def
       insertQueryOf_def ids_def comp_def
      split: sum.splits prod.splits option.splits)

lemma callback_db_failed:
  "compile env (insertQueryOf env name t b w) = Inl e \<Longrightarrow>
   db (snd (callback env name t b w)) = db w"
  by (simp add: callback_unfold afterFormat_frame)

lemma callbackEvents_phase: "ev \<in> set (callbackEvents env name t b w) \<Longrightarrow> phaseOf ev = Copying"
  by (auto simp: callbackEvents_def insertQueryOf_def split: sum.splits option.splits)

lemma callbackEvents_query:
  "ev \<in> set (callbackEvents env name t b w) \<Longrightarrow> q \<in> set (queryOf ev) \<Longrightarrow>
   q = insertQueryOf env name t b w"
  by (auto simp: callbackEvents_def split: sum.splits option.splits)

lemma callbackEvents_inserted:
  "insertedDocs (callbackEvents env name t b w) = [map (heap (afterFormat env name b w)) b]"
  by (auto simp: callbackEvents_def insertedDocs_def insertQueryOf_def
      split: sum.splits option.splits)

lemma callbackEvents_attempted:
  "attemptedIds (callbackEvents env name t b w) =
     (case compile env (insertQueryOf env name t b w) of
        Inl e \<Rightarrow> [] | Inr c \<Rightarrow> ids (map (heap w) b))"
  by (simp add: callbackEvents_def attemptedIds_def insertQueryOf_def ids_afterFormat
      split: sum.splits option.splits)

lemma forEachBatch_callback_induct [consumes 1, case_names Nil Abort Continue]:
  assumes run: "forEachBatch (callback env name t) bs w = (r, w')"
    and nil: "\<And>w. P [] w (Inr ()) w"
    and abort: "\<And>b bs w e. compile env (insertQueryOf env name t b w) = Inl e \<Longrightarrow>
        P (b # bs) w (Inl e) (snd (callback env name t b w))"
    and continue: "\<And>b bs w c r w'. compile env (insertQueryOf env name t b w) = Inr c \<Longrightarrow>
        forEachBatch (callback env name t) bs (snd (callback env name t b w)) = (r, w') \<Longrightarrow>
        P bs (snd (callback env name t b w)) r w' \<Longrightarrow> P (b # bs) w r w'"
  shows "P bs w r w'"
  using run
proof (induction bs arbitrary: w)
  case Nil
  then show ?case using nil by simp
next
  case (Cons b bs)
  obtain r1 w1 where cb: "callback env name t b w = (r1, w1)"
    by (cases "callback env name t b w")
  show ?case
  proof (cases "compile env (insertQueryOf env name t b w)")
    case (Inl e)
    with cb have "r1 = Inl e" using callback_fst [of env name t b w] by simp
    with cb Cons.prems have "r = Inl e" "w' = w1" by simp_all
    with abort [OF Inl, of bs] cb show ?thesis by simp
  next
    case (Inr c)
    with cb have "r1 = Inr ()" using callback_fst [of env name t b w] by simp
    with cb Cons.prems have f: "forEachBatch (callback env name t) bs w1 = (r, w')" by simp
    from Cons.IH [OF f] have "P bs w1 r w'" .
    with continue [OF Inr, of bs r w'] f cb show ?thesis by simp
  qed
qed

lemma loop_trace:
  assumes "forEachBatch (callback env name t) bs w = (r, w')"
  shows "\<exists>evs. trace w' = trace w @ evs \<and> (\<forall>ev\<in>set evs. phaseOf ev = Copying) \<and>
     errorIds w' = errorIds w @ failedIds evs \<and>
     (\<forall>ev\<in>set evs. \<forall>q\<in>set (queryOf ev). \<exists>ds. q = InsertQuery t ds ConflictIgnore \<and>
         (\<exists>b\<in>set bs. length ds = length b))"
  using assms
proof (induction rule: forEachBatch_callback_induct)
  case (Nil w)
  show ?case by (simp add: failedIds_def)
next
  case (Abort b bs w e)
  let ?evs = "callbackEvents env name t b w"
  have "trace (snd (callback env name t b w)) = trace w @ ?evs" by (rule callback_trace)
  moreover have "\<forall>ev\<in>set ?evs. phaseOf ev = Copying" by (simp add: callbackEvents_phase)
  moreover have "errorIds (snd (callback env name t b w)) = errorIds w @ failedIds ?evs"
    by (rule callback_errorIds)
  moreover have "\<forall>ev\<in>set ?evs. \<forall>q\<in>set (queryOf ev). \<exists>ds. q = InsertQuery t ds ConflictIgnore \<and>
         (\<exists>b'\<in>set (b # bs). length ds = length b')"
  proof (intro ballI)
    fix ev q assume "ev \<in> set ?evs" "q \<in> set (queryOf ev)"
    then have "q = insertQueryOf env name t b w" by (rule callbackEvents_query)
    then show "\<exists>ds. q = InsertQuery t ds ConflictIgnore \<and> (\<exists>b'\<in>set (b # bs). length ds = length b')"
      by (simp add: insertQueryOf_def)
  qed
  ultimately show ?case by blast
next
  case (Continue b bs w c r w')
  let ?evs = "callbackEvents env name t b w"
  let ?w1 = "snd (callback env name t b w)"
  from Continue.IH obtain evs where tr: "trace w' = trace ?w1 @ evs"
    and ph: "\<forall>ev\<in>set evs. phaseOf ev = Copying"
    and er: "errorIds w' = errorIds ?w1 @ failedIds evs"
    and qs: "\<forall>ev\<in>set evs. \<forall>q\<in>set (queryOf ev). \<exists>ds. q = InsertQuery t ds ConflictIgnore \<and>
         (\<exists>b\<in>set bs. length ds = length b)" by blast
  have 1: "trace w' = trace w @ (?evs @ evs)" using tr by (simp add: callback_trace)
  have 2: "\<forall>ev\<in>set (?evs @ evs). phaseOf ev = Copying"
    using ph by (auto simp: callbackEvents_phase)
  have 3: "errorIds w' = errorIds w @ failedIds (?evs @ evs)"
    using er by (simp add: callback_errorIds failedIds_def)
  have 4: "\<forall>ev\<in>set (?evs @ evs). \<forall>q\<in>set (queryOf ev). \<exists>ds. q = InsertQuery t ds ConflictIgnore \<and>
         (\<exists>b'\<in>set (b # bs). length ds = length b')"
  proof (intro ballI)
    fix ev q assume ev: "ev \<in> set (?evs @ evs)" and q: "q \<in> set (queryOf ev)"
    show "\<exists>ds. q = InsertQuery t ds ConflictIgnore \<and> (\<exists>b'\<in>set (b # bs). length ds = length b')"
    proof (cases "ev \<in> set ?evs")
      case True
      from True q have "q = insertQueryOf env name t b w" by (rule callbackEvents_query)
      then show ?thesis by (simp add: insertQueryOf_def)
    next
      case False
      with ev have "ev \<in> set evs" by simp
      with qs q obtain ds b' where "q = InsertQuery t ds ConflictIgnore" "b' \<in> set bs"
          "length ds = length b'" by blast
      then show ?thesis by auto
    qed
  qed
  from 1 2 3 4 show ?case by blast
qed

lemma loop_heap:
  assumes "forEachBatch (callback env name t) bs w = (r, w')"
  shows "(\<forall>k x. k \<noteq> ''scoreExceeded75Date'' \<longrightarrow> k \<noteq> ''title'' \<longrightarrow>
            getProp (heap w' x) k = getProp (heap w x) k) \<and>
         (formatters env name = None \<longrightarrow> heap w' = heap w)"
  using assms
proof (induction rule: forEachBatch_callback_induct)
  case (Nil w)
  show ?case by simp
next
  case (Abort b bs w e)
  show ?case by (simp add: callback_heap afterFormat_other_prop afterFormat_identity)
next
  case (Continue b bs w c r w')
  then show ?case by (simp add: callback_heap afterFormat_other_prop afterFormat_identity)
qed

lemma loop_result:
  assumes "forEachBatch (callback env name t) bs w = (r, w')"
  shows "(\<forall>e. r = Inl e \<longrightarrow> (\<exists>ds. compile env (InsertQuery t ds ConflictIgnore) = Inl e)) \<and>
         prefix (attemptedIds (emitted w w')) (ids (map (heap w) (concat bs))) \<and>
         (r = Inr () \<longrightarrow> attemptedIds (emitted w w') = ids (map (heap w) (concat bs)))"
  using assms
proof (induction rule: forEachBatch_callback_induct)
  case (Nil w)
  show ?case by (simp add: emitted_def attemptedIds_def ids_def)
next
  case (Abort b bs w e)
  then have 1: "compile env (InsertQuery t (map (heap (afterFormat env name b w)) b) ConflictIgnore) = Inl e"
    by (simp add: insertQueryOf_def)
  have "emitted w (snd (callback env name t b w)) = callbackEvents env name t b w"
    by (rule emittedI) (rule callback_trace)
  with Abort have 2: "attemptedIds (emitted w (snd (callback env name t b w))) = []"
    by (simp add: callbackEvents_attempted)
  from 1 2 show ?case by auto
next
  case (Continue b bs w c r w')
  let ?evs = "callbackEvents env name t b w"
  let ?w1 = "snd (callback env name t b w)"
  from loop_trace [OF Continue.hyps(2)] obtain evs where tr: "trace w' = trace ?w1 @ evs" by blast
  then have e1: "emitted ?w1 w' = evs" by (rule emittedI)
  from tr have "trace w' = trace w @ (?evs @ evs)" by (simp add: callback_trace)
  then have e2: "emitted w w' = ?evs @ evs" by (rule emittedI)
  have a: "attemptedIds ?evs = ids (map (heap w) b)"
    using Continue.hyps(1) by (simp add: callbackEvents_attempted)
  have h: "ids (map (heap ?w1) (concat bs)) = ids (map (heap w) (concat bs))"
    by (simp add: callback_heap ids_afterFormat)
  have s: "attemptedIds (?evs @ evs) = ids (map (heap w) b) @ attemptedIds evs"
    using a by (simp add: attemptedIds_def)
  have i: "ids (map (heap w) (concat (b # bs))) = ids (map (heap w) b) @ ids (map (heap w) (concat bs))"
    by (simp add: ids_def)
  from Continue.IH show ?case unfolding e1 e2 s i h by simp
qed

lemma loop_identity:
  assumes "forEachBatch (callback env name t) bs w = (r, w')"
    and "formatters env name = None"
  shows "prefix (insertedDocs (emitted w w')) (map (map (heap w)) bs) \<and>
         (r = Inr () \<longrightarrow> insertedDocs (emitted w w') = map (map (heap w)) bs)"
  using assms
proof (induction rule: forEachBatch_callback_induct)
  case (Nil w)
  show ?case by (simp add: emitted_def insertedDocs_def)
next
  case (Abort b bs w e)
  have "emitted w (snd (callback env name t b w)) = callbackEvents env name t b w"
    by (rule emittedI) (rule callback_trace)
  with Abort show ?case
    by (simp add: callbackEvents_inserted afterFormat_identity)
next
  case (Continue b bs w c r w')
  let ?evs = "callbackEvents env name t b w"
  let ?w1 = "snd (callback env name t b w)"
  from loop_trace [OF Continue.hyps(2)] obtain evs where tr: "trace w' = trace ?w1 @ evs" by blast
  then have e1: "emitted ?w1 w' = evs" by (rule emittedI)
  from tr have "trace w' = trace w @ (?evs @ evs)" by (simp add: callback_trace)
  then have e2: "emitted w w' = ?evs @ evs" by (rule emittedI)
  have h: "heap ?w1 = heap w" using Continue.prems by (simp add: callback_heap afterFormat_identity)
  have i: "insertedDocs (?evs @ evs) = map (heap w) b # insertedDocs evs"
    using callbackEvents_inserted [of env name t b w] Continue.prems
    by (simp add: insertedDocs_def afterFormat_identity)
  from Continue.IH [OF Continue.prems] e1 e2 h i show ?case by simp
qed

lemma buildSchema_fst: "fst (buildSchema env c w) = fromCollection env c"
  by (simp add: buildSchema_def Let_def)

lemma buildSchema_frame:
  "heap (snd (buildSchema env c w)) = heap w"
  "db (snd (buildSchema env c w)) = db w"
  "trace (snd (buildSchema env c w)) = trace w @ schemaEvents c (fromCollection env c)"
  by (simp_all add: buildSchema_def Let_def schemaEvents_def)

lemma schemaEvents_phase: "ev \<in> set (schemaEvents c t) \<Longrightarrow> phaseOf ev = SchemaBuilt"
  by (auto simp: schemaEvents_def split: if_splits)

lemma createTable_heap: "heap (snd (createTable env t w)) = heap w"
  by (auto simp: createTable_def Let_def compileQuery_def sqlUnsafe_def failedToCreateTable_def
      split: option.splits sum.splits prod.splits)

lemma createTable_trace:
  assumes "createTable env t w = (r, w')"
  shows "\<exists>evs. trace w' = trace w @ evs \<and> (\<forall>ev\<in>set evs. phaseOf ev = TableCreated) \<and>
     (\<forall>q c e. Unsafe q c (Some e) \<in> set evs \<longrightarrow> r = Inl e)"
proof (cases "getSqlClientOrThrow env")
  case (Some e)
  with assms have "trace w' = trace w @ [Console LevelLog CreatingTable]"
    by (auto simp: createTable_def Let_def)
  then show ?thesis by auto
next
  case None
  show ?thesis
  proof (cases "compile env (CreateTableQuery t)")
    case (Inl e)
    with None assms have "trace w' = trace w @ [Console LevelLog CreatingTable,
        Compile (CreateTableQuery t), Console LevelError FailedToCreateTable,
        Console LevelLog (ShowTable t)]"
      by (auto simp: createTable_def Let_def compileQuery_def failedToCreateTable_def)
    then show ?thesis by auto
  next
    case (Inr c)
    obtain res d where u: "unsafe env c (db w) = (res, d)" by (cases "unsafe env c (db w)")
    show ?thesis
    proof (cases res)
      case None': None
      with None Inr u assms have "trace w' = trace w @ [Console LevelLog CreatingTable,
          Compile (CreateTableQuery t), Unsafe (CreateTableQuery t) c None]"
        by (auto simp: createTable_def Let_def compileQuery_def sqlUnsafe_def)
      then show ?thesis by auto
    next
      case (Some e)
      with None Inr u assms have "trace w' = trace w @ [Console LevelLog CreatingTable,
          Compile (CreateTableQuery t), Unsafe (CreateTableQuery t) c (Some e),
          Console LevelError FailedToCreateTable, Console LevelLog (ShowTable t)]" "r = Inl e"
        by (auto simp: createTable_def Let_def compileQuery_def sqlUnsafe_def failedToCreateTable_def)
      then show ?thesis by auto
    qed
  qed
qed


lemma forIndexQueries_heap: "heap (snd (forIndexQueries env qs w)) = heap w"
  by (induction qs arbitrary: w)
    (auto simp: compileQuery_def sqlUnsafe_def split: option.splits sum.splits prod.splits)

lemma forIndexQueries_trace:
  assumes "forIndexQueries env qs w = (r, w')" "\<forall>q\<in>set qs. phaseOfQuery q = IndexesCreated"
  shows "\<exists>evs. trace w' = trace w @ evs \<and> (\<forall>ev\<in>set evs. phaseOf ev = IndexesCreated) \<and>
     (\<forall>ev\<in>set evs. \<forall>e. eventError env ev = Some e \<longrightarrow> r = Inl e \<and> last evs = ev)"
  using assms
proof (induction qs arbitrary: w)
  case Nil
  then show ?case by simp
next
  case (Cons q qs)
  then have pq: "phaseOfQuery q = IndexesCreated" by simp
  show ?case
  proof (cases "compile env q")
    case (Inl e)
    with Cons.prems have "trace w' = trace w @ [Compile q]" "r = Inl e"
      by (auto simp: compileQuery_def)
    with pq Inl show ?thesis by auto
  next
    case (Inr c)
    obtain res d where u: "unsafe env c (db w) = (res, d)" by (cases "unsafe env c (db w)")
    show ?thesis
    proof (cases res)
      case (Some e)
      with Inr u Cons.prems have "trace w' = trace w @ [Compile q, Unsafe q c (Some e)]" "r = Inl e"
        by (auto simp: compileQuery_def sqlUnsafe_def)
      with pq Inr show ?thesis by auto
    next
      case None
      let ?w2 = "emit (Unsafe q c None) ((emit (Compile q) w)\<lparr>db := d\<rparr>)"
      let ?pre = "[Compile q, Unsafe q c None]"
      from None Inr u Cons.prems have f: "forIndexQueries env qs ?w2 = (r, w')"
        by (simp add: compileQuery_def sqlUnsafe_def)
      from Cons.IH [OF f] Cons.prems(2) obtain evs where
        tr: "trace w' = trace ?w2 @ evs" and ph: "\<forall>ev\<in>set evs. phaseOf ev = IndexesCreated"
        and er: "\<forall>ev\<in>set evs. \<forall>e. eventError env ev = Some e \<longrightarrow> r = Inl e \<and> last evs = ev"
        by auto
      have 1: "trace w' = trace w @ (?pre @ evs)" using tr by simp
      have 2: "\<forall>ev\<in>set (?pre @ evs). phaseOf ev = IndexesCreated" using ph pq by auto
      have 3: "\<forall>ev\<in>set (?pre @ evs). \<forall>e. eventError env ev = Some e \<longrightarrow>
          r = Inl e \<and> last (?pre @ evs) = ev"
      proof (intro ballI allI impI)
        fix ev e assume ev: "ev \<in> set (?pre @ evs)" and e: "eventError env ev = Some e"
        from ev e Inr have "ev \<in> set evs" by auto
        with er e have "r = Inl e" "last evs = ev" by auto
        moreover from \<open>ev \<in> set evs\<close> have "evs \<noteq> []" by auto
        ultimately show "r = Inl e \<and> last (?pre @ evs) = ev" by simp
      qed
      from 1 2 3 show ?thesis by blast
    qed
  qed
qed

lemma createIndexes_heap: "heap (snd (createIndexes env t w)) = heap w"
  by (simp add: createIndexes_def Let_def forIndexQueries_heap)

lemma createIndexes_trace:
  assumes "createIndexes env t w = (r, w')"
  shows "\<exists>evs. trace w' = trace w @ evs \<and> (\<forall>ev\<in>set evs. phaseOf ev = IndexesCreated) \<and>
     (\<forall>ev\<in>set evs. \<forall>e. eventError env ev = Some e \<longrightarrow> r = Inl e \<and> last evs = ev)"
proof -
  let ?w2 = "if length (map (\<lambda>index. CreateIndexQuery t index) (getIndexes t)) = 0
     then console LevelWarn NoIndexesFound (console LevelLog CreatingIndexes w)
     else console LevelLog CreatingIndexes w"
  let ?pre = "Console LevelLog CreatingIndexes #
     (if getIndexes t = [] then [Console LevelWarn NoIndexesFound] else [])"
  from assms have f: "forIndexQueries env (map (\<lambda>index. CreateIndexQuery t index) (getIndexes t)) ?w2
      = (r, w')"
    by (simp add: createIndexes_def Let_def)
  have "\<forall>q\<in>set (map (\<lambda>index. CreateIndexQuery t index) (getIndexes t)). phaseOfQuery q = IndexesCreated"
    by simp
  from forIndexQueries_trace [OF f this] obtain evs where
    tr: "trace w' = trace ?w2 @ evs" and ph: "\<forall>ev\<in>set evs. phaseOf ev = IndexesCreated"
    and er: "\<forall>ev\<in>set evs. \<forall>e. eventError env ev = Some e \<longrightarrow> r = Inl e \<and> last evs = ev"
    by blast
  have 1: "trace w' = trace w @ (?pre @ evs)" using tr by simp
  have 2: "\<forall>ev\<in>set (?pre @ evs). phaseOf ev = IndexesCreated" using ph by auto
  have 3: "\<forall>ev\<in>set (?pre @ evs). \<forall>e. eventError env ev = Some e \<longrightarrow>
      r = Inl e \<and> last (?pre @ evs) = ev"
  proof (intro ballI allI impI)
    fix ev e assume ev: "ev \<in> set (?pre @ evs)" and e: "eventError env ev = Some e"
    from ev e have "ev \<in> set evs" by (auto split: if_splits)
    with er e have "r = Inl e" "last evs = ev" by auto
    moreover from \<open>ev \<in> set evs\<close> have "evs \<noteq> []" by auto
    ultimately show "r = Inl e \<and> last (?pre @ evs) = ev" by simp
  qed
  from 1 2 3 show ?thesis by blast
qed

lemma batches_Nil [simp]: "batches n [] = []"
  by (simp add: batches.simps)

lemma batches_concat: "0 < n \<Longrightarrow> concat (batches n xs) = xs"
proof (induction n xs rule: batches.induct)
  case (1 n xs)
  show ?case
  proof (cases "xs = []")
    case True
    then show ?thesis by simp
  next
    case False
    with 1 have "concat (batches n (drop n xs)) = drop n xs" by simp
    with False 1(2) show ?thesis by (subst batches.simps) simp
  qed
qed

lemma batches_length: "b \<in> set (batches n xs) \<Longrightarrow> length b \<le> n"
proof (induction n xs rule: batches.induct)
  case (1 n xs)
  show ?case
  proof (cases "n = 0 \<or> xs = []")
    case True
    with 1(2) show ?thesis by (simp add: batches.simps)
  next
    case False
    with 1(2) have "b = take n xs \<or> b \<in> set (batches n (drop n xs))"
      by (subst (asm) batches.simps) auto
    with 1(1) False show ?thesis by auto
  qed
qed

lemma mongoToSql_invalid:
  "getCollection env name = None \<Longrightarrow>
   mongoToSql env name w = (Inl (JsError (''Invalid collection: '' @ name)), afterLookup name w)"
  by (simp add: mongoToSql_def Let_def afterLookup_def)

lemma mongoToSql_cases [consumes 2, case_names TableFailed IndexesFailed CopyFailed Finished]:
  assumes run: "mongoToSql env name w = (r, w')" and col: "getCollection env name = Some c"
  obtains
    (TableFailed) e where
      "createTable env (fromCollection env c) (snd (buildSchema env c (afterLookup name w))) = (Inl e, w')"
      "r = Inl e"
  | (IndexesFailed) e w4 where
      "createTable env (fromCollection env c) (snd (buildSchema env c (afterLookup name w))) = (Inr (), w4)"
      "createIndexes env (fromCollection env c) w4 = (Inl e, w')" "r = Inl e"
  | (CopyFailed) e w4 w5 where
      "createTable env (fromCollection env c) (snd (buildSchema env c (afterLookup name w))) = (Inr (), w4)"
      "createIndexes env (fromCollection env c) w4 = (Inr (), w5)"
      "copyData env name c (fromCollection env c) w5 = (Inl e, w')" "r = Inl e"
  | (Finished) w4 w5 w6 where
      "createTable env (fromCollection env c) (snd (buildSchema env c (afterLookup name w))) = (Inr (), w4)"
      "createIndexes env (fromCollection env c) w4 = (Inr (), w5)"
      "copyData env name c (fromCollection env c) w5 = (Inr (), w6)"
      "w' = finish name w6" "r = Inr ()"
proof -
  let ?t = "fromCollection env c"
  obtain t0 w3 where bs: "buildSchema env c (afterLookup name w) = (t0, w3)"
    by (cases "buildSchema env c (afterLookup name w)")
  have t0: "t0 = ?t" using bs buildSchema_fst [of env c "afterLookup name w"] by simp
  have w3: "snd (buildSchema env c (afterLookup name w)) = w3" using bs by simp
  note TableFailed = TableFailed [unfolded w3]
    and IndexesFailed = IndexesFailed [unfolded w3]
    and CopyFailed = CopyFailed [unfolded w3]
    and Finished = Finished [unfolded w3]
  have bs': "buildSchema env c (console LevelLog LookingUpCollection
      (console LevelLog (MigratingCollection name) w)) = (?t, w3)"
    using bs t0 by (simp add: afterLookup_def)
  have unf: "mongoToSql env name w =
     (case createTable env ?t w3 of
        (Inl e, w4) \<Rightarrow> (Inl e, w4)
      | (Inr u, w4) \<Rightarrow>
         (case createIndexes env ?t w4 of
            (Inl e, w5) \<Rightarrow> (Inl e, w5)
          | (Inr u, w5) \<Rightarrow>
             (case copyData env name c ?t w5 of
                (Inl e, w6) \<Rightarrow> (Inl e, w6)
              | (Inr u, w6) \<Rightarrow> (Inr (), finish name w6))))"
    using col bs' by (simp add: mongoToSql_def Let_def)
  obtain rt w4 where ct: "createTable env ?t w3 = (rt, w4)" by (cases "createTable env ?t w3")
  show thesis
  proof (cases rt)
    case (Inl e)
    with ct unf run have "w' = w4" "r = Inl e" by simp_all
    with ct Inl TableFailed show thesis by simp
  next
    case (Inr u)
    obtain ri w5 where ci: "createIndexes env ?t w4 = (ri, w5)" by (cases "createIndexes env ?t w4")
    show thesis
    proof (cases ri)
      case (Inl e)
      with ct ci Inr unf run have "w' = w5" "r = Inl e" by simp_all
      with ct ci Inr Inl IndexesFailed show thesis by simp
    next
      case Inr2: (Inr u2)
      obtain rc w6 where cd: "copyData env name c ?t w5 = (rc, w6)"
        by (cases "copyData env name c ?t w5")
      show thesis
      proof (cases rc)
        case (Inl e)
        with ct ci cd Inr Inr2 unf run have "w' = w6" "r = Inl e" by simp_all
        with ct ci cd Inr Inr2 Inl CopyFailed show thesis by simp
      next
        case Inr3: (Inr u3)
        with ct ci cd Inr Inr2 unf run have "w' = finish name w6" "r = Inr ()" by simp_all
        with ct ci cd Inr Inr2 Inr3 Finished show thesis by simp
      qed
    qed
  qed
qed

lemma afterLookup_frame:
  "heap (afterLookup name w) = heap w" "db (afterLookup name w) = db w"
  "trace (afterLookup name w) = trace w @
     [Console LevelLog (MigratingCollection name), Console LevelLog LookingUpCollection]"
  by (simp_all add: afterLookup_def)

lemma finish_frame:
  "heap (finish name w) = heap w" "db (finish name w) = db w"
  "errorIds (finish name w) = errorIds w"
  "trace (finish name w) = trace w @ finishEvents name w"
  by (simp_all add: finish_def Let_def finishEvents_def)

lemma finishEvents_phase: "ev \<in> set (finishEvents name w) \<Longrightarrow> phaseOf ev = Done"
  by (auto simp: finishEvents_def split: if_splits)

lemma copyData_unfold:
  "copyData env name c t w =
     forEachBatch (callback env name t) (batches batchSize (documents c))
       ((console LevelLog CopyingData w)\<lparr>errorIds := [], count := 0\<rparr>)"
  by (simp add: copyData_def Let_def forEachDocumentBatchInCollection_def)

lemma copyData_trace:
  assumes "copyData env name c t w = (r, w')"
  shows "\<exists>evs. trace w' = trace w @ (Console LevelLog CopyingData # evs) \<and>
     (\<forall>ev\<in>set evs. phaseOf ev = Copying) \<and>
     errorIds w' = failedIds evs \<and>
     (\<forall>ev\<in>set evs. \<forall>q\<in>set (queryOf ev). \<exists>ds. q = InsertQuery t ds ConflictIgnore \<and>
         length ds \<le> batchSize) \<and>
     (\<forall>e. r = Inl e \<longrightarrow> (\<exists>ds. compile env (InsertQuery t ds ConflictIgnore) = Inl e)) \<and>
     prefix (attemptedIds evs) (ids (map (heap w) (documents c))) \<and>
     (r = Inr () \<longrightarrow> attemptedIds evs = ids (map (heap w) (documents c))) \<and>
     (formatters env name = None \<longrightarrow>
        prefix (insertedDocs evs) (map (map (heap w)) (batches batchSize (documents c))) \<and>
        (r = Inr () \<longrightarrow> insertedDocs evs = map (map (heap w)) (batches batchSize (documents c))))"
proof -
  let ?w2 = "(console LevelLog CopyingData w)\<lparr>errorIds := [], count := 0\<rparr>"
  let ?bs = "batches batchSize (documents c)"
  from assms have f: "forEachBatch (callback env name t) ?bs ?w2 = (r, w')"
    by (simp add: copyData_unfold)
  from loop_trace [OF f] obtain evs where tr: "trace w' = trace ?w2 @ evs"
    and ph: "\<forall>ev\<in>set evs. phaseOf ev = Copying"
    and er: "errorIds w' = errorIds ?w2 @ failedIds evs"
    and qs: "\<forall>ev\<in>set evs. \<forall>q\<in>set (queryOf ev). \<exists>ds. q = InsertQuery t ds ConflictIgnore \<and>
         (\<exists>b\<in>set ?bs. length ds = length b)" by blast
  from tr have em: "emitted ?w2 w' = evs" by (rule emittedI)
  have 1: "trace w' = trace w @ (Console LevelLog CopyingData # evs)" using tr by simp
  have 2: "errorIds w' = failedIds evs" using er by simp
  have 3: "\<forall>ev\<in>set evs. \<forall>q\<in>set (queryOf ev). \<exists>ds. q = InsertQuery t ds ConflictIgnore \<and>
         length ds \<le> batchSize"
  proof (intro ballI)
    fix ev q assume "ev \<in> set evs" "q \<in> set (queryOf ev)"
    with qs obtain ds b where "q = InsertQuery t ds ConflictIgnore" "b \<in> set ?bs"
        "length ds = length b" by blast
    with batches_length [of b batchSize "documents c"]
    show "\<exists>ds. q = InsertQuery t ds ConflictIgnore \<and> length ds \<le> batchSize" by simp
  qed
  have c: "concat ?bs = documents c" by (rule batches_concat) (simp add: batchSize_def)
  from loop_result [OF f] em c have 4:
    "\<forall>e. r = Inl e \<longrightarrow> (\<exists>ds. compile env (InsertQuery t ds ConflictIgnore) = Inl e)"
    "prefix (attemptedIds evs) (ids (map (heap w) (documents c)))"
    "r = Inr () \<longrightarrow> attemptedIds evs = ids (map (heap w) (documents c))" by simp_all
  have 5: "formatters env name = None \<longrightarrow>
        prefix (insertedDocs evs) (map (map (heap w)) ?bs) \<and>
        (r = Inr () \<longrightarrow> insertedDocs evs = map (map (heap w)) ?bs)"
    using loop_identity [OF f] em by simp
  show ?thesis by (intro exI [of _ evs] conjI 1 ph 2 3 4 5)
qed

lemma copyData_heap:
  assumes "copyData env name c t w = (r, w')"
  shows "(\<forall>k x. k \<noteq> ''scoreExceeded75Date'' \<longrightarrow> k \<noteq> ''title'' \<longrightarrow>
            getProp (heap w' x) k = getProp (heap w x) k) \<and>
         (formatters env name = None \<longrightarrow> heap w' = heap w)"
  using loop_heap [of env name t "batches batchSize (documents c)"
      "(console LevelLog CopyingData w)\<lparr>errorIds := [], count := 0\<rparr>" r w'] assms
  by (simp add: copyData_unfold)

lemma idsOf_other_phase:
  "phaseOf ev \<noteq> Copying \<Longrightarrow>
   failedIdsOf ev = [] \<and> succeededIdsOf ev = [] \<and> attemptedIdsOf ev = [] \<and> insertedDocsOf ev = []"
proof (cases ev)
  case (Console l m)
  then show ?thesis by simp
next
  case (Compile q)
  assume "phaseOf ev \<noteq> Copying"
  with Compile show ?thesis by (cases q) simp_all
next
  case (Unsafe q c r)
  assume "phaseOf ev \<noteq> Copying"
  with Unsafe show ?thesis by (cases q) simp_all
qed

lemma ids_other_phase:
  assumes "\<forall>ev\<in>set evs. phaseOf ev \<noteq> Copying"
  shows "failedIds evs = []" "succeededIds evs = []" "attemptedIds evs = []" "insertedDocs evs = []"
  using assms idsOf_other_phase
  by (auto simp: failedIds_def succeededIds_def attemptedIds_def insertedDocs_def)

lemma ids_append:
  "failedIds (xs @ ys) = failedIds xs @ failedIds ys"
  "succeededIds (xs @ ys) = succeededIds xs @ succeededIds ys"
  "attemptedIds (xs @ ys) = attemptedIds xs @ attemptedIds ys"
  "insertedDocs (xs @ ys) = insertedDocs xs @ insertedDocs ys"
  by (simp_all add: failedIds_def succeededIds_def attemptedIds_def insertedDocs_def)

lemma ids_Cons_Console:
  "failedIds (Console l m # evs) = failedIds evs"
  "succeededIds (Console l m # evs) = succeededIds evs"
  "attemptedIds (Console l m # evs) = attemptedIds evs"
  "insertedDocs (Console l m # evs) = insertedDocs evs"
  by (simp_all add: failedIds_def succeededIds_def attemptedIds_def insertedDocs_def)

lemma mongoToSql_shape:
  assumes run: "mongoToSql env name w = (r, w')" and col: "getCollection env name = Some c"
  shows "\<exists>tb ix cp fin. runShape env name c w r w' tb ix cp fin"
  using run col
proof (cases rule: mongoToSql_cases)
  case (TableFailed e)
  let ?w3 = "snd (buildSchema env c (afterLookup name w))"
  have pre: "trace ?w3 = trace w @ (lookupEvents name @ schemaEvents c (fromCollection env c))"
    by (simp add: buildSchema_frame afterLookup_frame lookupEvents_def)
  from createTable_trace [OF TableFailed(1)] obtain tb where
    tb: "trace w' = trace ?w3 @ tb" "\<forall>ev\<in>set tb. phaseOf ev = TableCreated"
      "\<forall>q c e'. Unsafe q c (Some e') \<in> set tb \<longrightarrow> e' = e"
    by auto
  have p: "runShape env name c w r w' tb [] [] []"
    using tb pre TableFailed(2) by (simp add: runShape_def insertedDocs_def attemptedIds_def)
  show ?thesis
    by (rule exI [of _ "tb"], rule exI [of _ "[]"], rule exI [of _ "[]"], rule exI [of _ "[]"]) (rule p)
next
  case (IndexesFailed e w4)
  let ?w3 = "snd (buildSchema env c (afterLookup name w))"
  have pre: "trace ?w3 = trace w @ (lookupEvents name @ schemaEvents c (fromCollection env c))"
    by (simp add: buildSchema_frame afterLookup_frame lookupEvents_def)
  from createTable_trace [OF IndexesFailed(1)] obtain tb where
    tb: "trace w4 = trace ?w3 @ tb" "\<forall>ev\<in>set tb. phaseOf ev = TableCreated"
      "\<forall>q c e. Unsafe q c (Some e) \<notin> set tb"
    by auto
  from createIndexes_trace [OF IndexesFailed(2)] obtain ix where
    ix: "trace w' = trace w4 @ ix" "\<forall>ev\<in>set ix. phaseOf ev = IndexesCreated"
      "\<forall>ev\<in>set ix. \<forall>e'. eventError env ev = Some e' \<longrightarrow> e' = e \<and> last ix = ev"
    by auto
  have p: "runShape env name c w r w' tb ix [] []"
    using tb ix pre IndexesFailed(3) by (simp add: runShape_def insertedDocs_def attemptedIds_def)
  show ?thesis
    by (rule exI [of _ "tb"], rule exI [of _ "ix"], rule exI [of _ "[]"], rule exI [of _ "[]"]) (rule p)
next
  case (CopyFailed e w4 w5)
  let ?w3 = "snd (buildSchema env c (afterLookup name w))"
  have pre: "trace ?w3 = trace w @ (lookupEvents name @ schemaEvents c (fromCollection env c))"
    by (simp add: buildSchema_frame afterLookup_frame lookupEvents_def)
  have h3: "heap ?w3 = heap w" by (simp add: buildSchema_frame afterLookup_frame)
  have h4: "heap w4 = heap ?w3" using createTable_heap [of env "fromCollection env c" ?w3] CopyFailed(1) by simp
  have h5: "heap w5 = heap w4" using createIndexes_heap [of env "fromCollection env c" w4] CopyFailed(2) by simp
  from createTable_trace [OF CopyFailed(1)] obtain tb where
    tb: "trace w4 = trace ?w3 @ tb" "\<forall>ev\<in>set tb. phaseOf ev = TableCreated"
      "\<forall>q c e. Unsafe q c (Some e) \<notin> set tb"
    by auto
  from createIndexes_trace [OF CopyFailed(2)] obtain ix where
    ix: "trace w5 = trace w4 @ ix" "\<forall>ev\<in>set ix. phaseOf ev = IndexesCreated"
      "\<forall>ev\<in>set ix. eventError env ev = None"
    by auto
  from copyData_trace [OF CopyFailed(3)] obtain evs where
    cp: "trace w' = trace w5 @ (Console LevelLog CopyingData # evs)"
      "\<forall>ev\<in>set evs. phaseOf ev = Copying"
      "errorIds w' = failedIds evs"
      "\<forall>ev\<in>set evs. \<forall>q\<in>set (queryOf ev).
         \<exists>ds. q = InsertQuery (fromCollection env c) ds ConflictIgnore \<and> length ds \<le> batchSize"
      "\<forall>e'. (Inl e :: jserror + unit) = Inl e' \<longrightarrow>
         (\<exists>ds. compile env (InsertQuery (fromCollection env c) ds ConflictIgnore) = Inl e')"
      "prefix (attemptedIds evs) (ids (map (heap w5) (documents c)))"
      "(Inl e :: jserror + unit) = Inr () \<longrightarrow> attemptedIds evs = ids (map (heap w5) (documents c))"
      "formatters env name = None \<longrightarrow>
        prefix (insertedDocs evs) (map (map (heap w5)) (batches batchSize (documents c))) \<and>
        ((Inl e :: jserror + unit) = Inr () \<longrightarrow>
           insertedDocs evs = map (map (heap w5)) (batches batchSize (documents c)))"
    by (elim exE conjE) (rule that)
  have p: "runShape env name c w r w' tb ix (Console LevelLog CopyingData # evs) []"
    using tb ix cp pre CopyFailed(4) h3 h4 h5 by (simp add: runShape_def ids_Cons_Console)
  show ?thesis
    by (rule exI [of _ "tb"], rule exI [of _ "ix"], rule exI [of _ "Console LevelLog CopyingData # evs"], rule exI [of _ "[]"]) (rule p)
next
  case (Finished w4 w5 w6)
  let ?w3 = "snd (buildSchema env c (afterLookup name w))"
  have pre: "trace ?w3 = trace w @ (lookupEvents name @ schemaEvents c (fromCollection env c))"
    by (simp add: buildSchema_frame afterLookup_frame lookupEvents_def)
  have h3: "heap ?w3 = heap w" by (simp add: buildSchema_frame afterLookup_frame)
  have h4: "heap w4 = heap ?w3" using createTable_heap [of env "fromCollection env c" ?w3] Finished(1) by simp
  have h5: "heap w5 = heap w4" using createIndexes_heap [of env "fromCollection env c" w4] Finished(2) by simp
  from createTable_trace [OF Finished(1)] obtain tb where
    tb: "trace w4 = trace ?w3 @ tb" "\<forall>ev\<in>set tb. phaseOf ev = TableCreated"
      "\<forall>q c e. Unsafe q c (Some e) \<notin> set tb"
    by auto
  from createIndexes_trace [OF Finished(2)] obtain ix where
    ix: "trace w5 = trace w4 @ ix" "\<forall>ev\<in>set ix. phaseOf ev = IndexesCreated"
      "\<forall>ev\<in>set ix. eventError env ev = None"
    by auto
  from copyData_trace [OF Finished(3)] obtain evs where
    cp: "trace w6 = trace w5 @ (Console LevelLog CopyingData # evs)"
      "\<forall>ev\<in>set evs. phaseOf ev = Copying"
      "errorIds w6 = failedIds evs"
      "\<forall>ev\<in>set evs. \<forall>q\<in>set (queryOf ev).
         \<exists>ds. q = InsertQuery (fromCollection env c) ds ConflictIgnore \<and> length ds \<le> batchSize"
      "\<forall>e'. (Inr () :: jserror + unit) = Inl e' \<longrightarrow>
         (\<exists>ds. compile env (InsertQuery (fromCollection env c) ds ConflictIgnore) = Inl e')"
      "prefix (attemptedIds evs) (ids (map (heap w5) (documents c)))"
      "(Inr () :: jserror + unit) = Inr () \<longrightarrow> attemptedIds evs = ids (map (heap w5) (documents c))"
      "formatters env name = None \<longrightarrow>
        prefix (insertedDocs evs) (map (map (heap w5)) (batches batchSize (documents c))) \<and>
        ((Inr () :: jserror + unit) = Inr () \<longrightarrow>
           insertedDocs evs = map (map (heap w5)) (batches batchSize (documents c)))"
    by (elim exE conjE) (rule that)
  have fin: "trace w' = trace w6 @ finishEvents name w6" "errorIds w' = errorIds w6"
    using Finished(4) by (simp_all add: finish_frame)
  have p: "runShape env name c w r w' tb ix (Console LevelLog CopyingData # evs) (finishEvents name w6)"
    using tb ix cp pre Finished(5) h3 h4 h5 fin
    by (simp add: runShape_def ids_Cons_Console finishEvents_phase)
  show ?thesis
    by (rule exI [of _ "tb"], rule exI [of _ "ix"], rule exI [of _ "Console LevelLog CopyingData # evs"], rule exI [of _ "finishEvents name w6"]) (rule p)
qed

lemma mongoToSql_phases:
  assumes "getCollection env name = Some c"
  shows "mongoToSql env name w =
     (case fst (afterCreateTable env name c w) of
        Inl e \<Rightarrow> afterCreateTable env name c w
      | Inr u \<Rightarrow>
         (case fst (afterCreateIndexes env name c w) of
            Inl e \<Rightarrow> afterCreateIndexes env name c w
          | Inr u \<Rightarrow>
             (case fst (afterCopyData env name c w) of
                Inl e \<Rightarrow> afterCopyData env name c w
              | Inr u \<Rightarrow> (Inr (), finish name (snd (afterCopyData env name c w))))))"
proof -
  obtain r w' where run: "mongoToSql env name w = (r, w')" by (cases "mongoToSql env name w")
  from run assms show ?thesis
  proof (cases rule: mongoToSql_cases)
    case (TableFailed e)
    with run show ?thesis by (simp add: afterCreateTable_def)
  next
    case (IndexesFailed e w4)
    with run show ?thesis by (simp add: afterCreateTable_def afterCreateIndexes_def)
  next
    case (CopyFailed e w4 w5)
    with run show ?thesis
      by (simp add: afterCreateTable_def afterCreateIndexes_def afterCopyData_def)
  next
    case (Finished w4 w5 w6)
    with run show ?thesis
      by (simp add: afterCreateTable_def afterCreateIndexes_def afterCopyData_def)
  qed
qed

lemma mongoToSql_heap:
  assumes run: "mongoToSql env name w = (r, w')"
  shows "(\<forall>k x. k \<noteq> ''scoreExceeded75Date'' \<longrightarrow> k \<noteq> ''title'' \<longrightarrow>
            getProp (heap w' x) k = getProp (heap w x) k) \<and>
         (formatters env name = None \<longrightarrow> heap w' = heap w)"
proof (cases "getCollection env name")
  case None
  with run have "w' = afterLookup name w" by (simp add: mongoToSql_invalid)
  then show ?thesis by (simp add: afterLookup_frame)
next
  case (Some c)
  let ?t = "fromCollection env c"
  let ?w3 = "snd (buildSchema env c (afterLookup name w))"
  have h3: "heap ?w3 = heap w" by (simp add: buildSchema_frame afterLookup_frame)
  from run Some show ?thesis
  proof (cases rule: mongoToSql_cases)
    case (TableFailed e)
    then show ?thesis using createTable_heap [of env ?t ?w3] h3 by simp
  next
    case (IndexesFailed e w4)
    then show ?thesis
      using createTable_heap [of env ?t ?w3] createIndexes_heap [of env ?t w4] h3 by simp
  next
    case (CopyFailed e w4 w5)
    then have "heap w5 = heap w"
      using createTable_heap [of env ?t ?w3] createIndexes_heap [of env ?t w4] h3 by simp
    with copyData_heap [OF CopyFailed(3)] show ?thesis by simp
  next
    case (Finished w4 w5 w6)
    then have "heap w5 = heap w"
      using createTable_heap [of env ?t ?w3] createIndexes_heap [of env ?t w4] h3 by simp
    with copyData_heap [OF Finished(3)] Finished(4) show ?thesis by (simp add: finish_frame)
  qed
qed

lemma lookupEvents_phase: "ev \<in> set (lookupEvents name) \<Longrightarrow> phaseOf ev = Lookup"
  by (auto simp: lookupEvents_def)

lemma runShape_emitted:
  assumes "runShape env name c w r w' tb ix cp fin"
  shows "emitted w w' =
     lookupEvents name @ schemaEvents c (fromCollection env c) @ tb @ ix @ cp @ fin"
  using assms by (intro emittedI) (simp add: runShape_def)

lemma runShape_segment:
  assumes sh: "runShape env name c w r w' tb ix cp fin" and ev: "ev \<in> set (emitted w w')"
  shows "phaseOf ev = SchemaBuilt \<Longrightarrow> ev \<in> set (schemaEvents c (fromCollection env c))"
    and "phaseOf ev = TableCreated \<Longrightarrow> ev \<in> set tb"
    and "phaseOf ev = IndexesCreated \<Longrightarrow> ev \<in> set ix"
    and "phaseOf ev = Copying \<Longrightarrow> ev \<in> set cp"
    and "phaseOf ev = Done \<Longrightarrow> ev \<in> set fin"
proof -
  from sh have ph: "\<forall>ev\<in>set tb. phaseOf ev = TableCreated"
      "\<forall>ev\<in>set ix. phaseOf ev = IndexesCreated"
      "\<forall>ev\<in>set cp. phaseOf ev = Copying" "\<forall>ev\<in>set fin. phaseOf ev = Done"
    by (simp_all add: runShape_def)
  from ev have m: "ev \<in> set (lookupEvents name) \<or> ev \<in> set (schemaEvents c (fromCollection env c))
      \<or> ev \<in> set tb \<or> ev \<in> set ix \<or> ev \<in> set cp \<or> ev \<in> set fin"
    unfolding runShape_emitted [OF sh] by auto
  show "phaseOf ev = SchemaBuilt \<Longrightarrow> ev \<in> set (schemaEvents c (fromCollection env c))"
    using m ph lookupEvents_phase [of ev name] by auto
  show "phaseOf ev = TableCreated \<Longrightarrow> ev \<in> set tb"
    using m ph lookupEvents_phase [of ev name] schemaEvents_phase [of ev c "fromCollection env c"]
    by auto
  show "phaseOf ev = IndexesCreated \<Longrightarrow> ev \<in> set ix"
    using m ph lookupEvents_phase [of ev name] schemaEvents_phase [of ev c "fromCollection env c"]
    by auto
  show "phaseOf ev = Copying \<Longrightarrow> ev \<in> set cp"
    using m ph lookupEvents_phase [of ev name] schemaEvents_phase [of ev c "fromCollection env c"]
    by auto
  show "phaseOf ev = Done \<Longrightarrow> ev \<in> set fin"
    using m ph lookupEvents_phase [of ev name] schemaEvents_phase [of ev c "fromCollection env c"]
    by auto
qed

lemma runShape_ids:
  assumes sh: "runShape env name c w r w' tb ix cp fin"
  shows "failedIds (emitted w w') = failedIds cp"
    and "succeededIds (emitted w w') = succeededIds cp"
    and "attemptedIds (emitted w w') = attemptedIds cp"
    and "insertedDocs (emitted w w') = insertedDocs cp"
proof -
  from sh have ph: "\<forall>ev\<in>set tb. phaseOf ev \<noteq> Copying" "\<forall>ev\<in>set ix. phaseOf ev \<noteq> Copying"
      "\<forall>ev\<in>set fin. phaseOf ev \<noteq> Copying"
    by (auto simp: runShape_def)
  have lo: "\<forall>ev\<in>set (lookupEvents name :: 'a event list). phaseOf ev \<noteq> Copying"
    by (simp add: lookupEvents_def)
  have sc: "\<forall>ev\<in>set (schemaEvents c (fromCollection env c) :: 'a event list). phaseOf ev \<noteq> Copying"
    by (simp add: schemaEvents_def)
  note z = ids_other_phase [OF lo] ids_other_phase [OF sc] ids_other_phase [OF ph(1)]
    ids_other_phase [OF ph(2)] ids_other_phase [OF ph(3)]
  show "failedIds (emitted w w') = failedIds cp"
    by (simp add: runShape_emitted [OF sh] ids_append z)
  show "succeededIds (emitted w w') = succeededIds cp"
    by (simp add: runShape_emitted [OF sh] ids_append z)
  show "attemptedIds (emitted w w') = attemptedIds cp"
    by (simp add: runShape_emitted [OF sh] ids_append z)
  show "insertedDocs (emitted w w') = insertedDocs cp"
    by (simp add: runShape_emitted [OF sh] ids_append z)
qed

lemma mongoToSql_invalid_emitted:
  assumes "mongoToSql env name w = (r, w')" "getCollection env name = None"
  shows "emitted w w' = lookupEvents name"
proof -
  from assms have "w' = afterLookup name w" by (simp add: mongoToSql_invalid)
  then show ?thesis by (intro emittedI) (simp add: afterLookup_frame lookupEvents_def)
qed

lemma idsOf_cases:
  "(failedIdsOf ev = attemptedIdsOf ev \<and> succeededIdsOf ev = []) \<or>
   (failedIdsOf ev = [] \<and> succeededIdsOf ev = attemptedIdsOf ev)"
proof (cases ev)
  case (Console l m)
  then show ?thesis by simp
next
  case (Compile q)
  then show ?thesis by simp
next
  case (Unsafe q c r)
  then show ?thesis by (cases q; cases r) simp_all
qed

lemma ids_subset:
  "set (failedIds evs) \<subseteq> set (attemptedIds evs) \<and>
   set (succeededIds evs) \<subseteq> set (attemptedIds evs)"
proof (induction evs)
  case Nil
  show ?case by (simp add: failedIds_def succeededIds_def)
next
  case (Cons ev evs)
  have a: "attemptedIds (ev # evs) = attemptedIdsOf ev @ attemptedIds evs"
    and f: "failedIds (ev # evs) = failedIdsOf ev @ failedIds evs"
    and s: "succeededIds (ev # evs) = succeededIdsOf ev @ succeededIds evs"
    by (simp_all add: attemptedIds_def failedIds_def succeededIds_def)
  from idsOf_cases [of ev] Cons.IH show ?case unfolding a f s by auto
qed

lemma ids_disjoint:
  "distinct (attemptedIds evs) \<Longrightarrow> set (succeededIds evs) \<inter> set (failedIds evs) = {}"
proof (induction evs)
  case Nil
  show ?case by (simp add: failedIds_def)
next
  case (Cons ev evs)
  have a: "attemptedIds (ev # evs) = attemptedIdsOf ev @ attemptedIds evs"
    and f: "failedIds (ev # evs) = failedIdsOf ev @ failedIds evs"
    and s: "succeededIds (ev # evs) = succeededIdsOf ev @ succeededIds evs"
    by (simp_all add: attemptedIds_def failedIds_def succeededIds_def)
  from Cons.prems have d: "distinct (attemptedIds evs)"
    "set (attemptedIdsOf ev) \<inter> set (attemptedIds evs) = {}"
    unfolding a by simp_all
  from Cons.IH [OF d(1)] have ih: "set (succeededIds evs) \<inter> set (failedIds evs) = {}" .
  from idsOf_cases [of ev] show ?case
  proof
    assume "failedIdsOf ev = attemptedIdsOf ev \<and> succeededIdsOf ev = []"
    with ih d(2) ids_subset [of evs] show ?thesis unfolding f s by auto
  next
    assume "failedIdsOf ev = [] \<and> succeededIdsOf ev = attemptedIdsOf ev"
    with ih d(2) ids_subset [of evs] show ?thesis unfolding f s by auto
  qed
qed

lemma prefix_distinct: "prefix xs ys \<Longrightarrow> distinct ys \<Longrightarrow> distinct xs"
  by (auto simp: prefix_def)

lemma batchSize_limit: "batchSize * n \<le> maxParameters \<longleftrightarrow> n \<le> 163"
proof
  assume le: "batchSize * n \<le> maxParameters"
  show "n \<le> 163"
  proof (rule ccontr)
    assume "\<not> n \<le> 163"
    then have "164 \<le> n" by simp
    then have "400 * 164 \<le> 400 * n" by (rule mult_le_mono2)
    with le show False by (simp add: batchSize_def maxParameters_def)
  qed
next
  assume "n \<le> 163"
  then have "400 * n \<le> 400 * 163" by (rule mult_le_mono2)
  then show "batchSize * n \<le> maxParameters" by (simp add: batchSize_def maxParameters_def)
qed

lemma afterFormat_Posts:
  "afterFormat env ''Posts'' b w =
     snd (mapFormat (formatPosts env) b
       ((console LevelLog (MigratingDocuments (length b) (count w)) w)
          \<lparr>count := count w + batchSize\<rparr>))"
  by (simp add: afterFormat_def formatData_Posts)

lemma run_pair: "mongoToSql env name w = (fst (mongoToSql env name w), snd (mongoToSql env name w))"
  by simp

lemma example_collections:
  "getCollection exampleEnv ''Posts'' = Some examplePosts"
  "getCollection exampleEnv ''Users'' = Some exampleUsers"
  "getCollection exampleEnv ''Empty'' = Some exampleEmpty"
  "getCollection indexRefusedEnv ''Users'' = Some exampleUsers"
  "getCollection tableRefusedEnv ''Users'' = Some exampleUsers"
  by (simp_all add: exampleEnv_def indexRefusedEnv_def tableRefusedEnv_def)

lemma example_users_unregistered: "formatters exampleEnv ''Users'' = None"
  by (simp add: formatters_def)

lemma posts_run:
  "mongoToSql exampleEnv ''Posts'' (exampleWorld 0) =
     (Inr (), finish ''Posts'' (snd (afterCopyData exampleEnv ''Posts'' examplePosts (exampleWorld 0))))"
proof -
  have "fst (afterCreateTable exampleEnv ''Posts'' examplePosts (exampleWorld 0)) = Inr ()"
    by code_simp
  moreover have "fst (afterCreateIndexes exampleEnv ''Posts'' examplePosts (exampleWorld 0)) = Inr ()"
    by code_simp
  moreover have "fst (afterCopyData exampleEnv ''Posts'' examplePosts (exampleWorld 0)) = Inr ()"
    by code_simp
  ultimately show ?thesis by (simp add: mongoToSql_phases [OF example_collections(1)])
qed

lemma posts_run_flaky:
  "mongoToSql exampleEnv ''Posts'' flakyWorld =
     (Inr (), finish ''Posts'' (snd (afterCopyData exampleEnv ''Posts'' examplePosts flakyWorld)))"
proof -
  have "fst (afterCreateTable exampleEnv ''Posts'' examplePosts flakyWorld) = Inr ()"
    by code_simp
  moreover have "fst (afterCreateIndexes exampleEnv ''Posts'' examplePosts flakyWorld) = Inr ()"
    by code_simp
  moreover have "fst (afterCopyData exampleEnv ''Posts'' examplePosts flakyWorld) = Inr ()"
    by code_simp
  ultimately show ?thesis by (simp add: mongoToSql_phases [OF example_collections(1)])
qed

lemma users_run:
  "mongoToSql exampleEnv ''Users'' (exampleWorld 0) =
     (Inr (), finish ''Users'' (snd (afterCopyData exampleEnv ''Users'' exampleUsers (exampleWorld 0))))"
proof -
  have "fst (afterCreateTable exampleEnv ''Users'' exampleUsers (exampleWorld 0)) = Inr ()"
    by code_simp
  moreover have "fst (afterCreateIndexes exampleEnv ''Users'' exampleUsers (exampleWorld 0)) = Inr ()"
    by code_simp
  moreover have "fst (afterCopyData exampleEnv ''Users'' exampleUsers (exampleWorld 0)) = Inr ()"
    by code_simp
  ultimately show ?thesis by (simp add: mongoToSql_phases [OF example_collections(2)])
qed


lemma index_refused_run:
  "mongoToSql indexRefusedEnv ''Users'' (exampleWorld 0) =
     afterCreateIndexes indexRefusedEnv ''Users'' exampleUsers (exampleWorld 0)"
proof -
  have "fst (afterCreateTable indexRefusedEnv ''Users'' exampleUsers (exampleWorld 0)) = Inr ()"
    by code_simp
  moreover have "fst (afterCreateIndexes indexRefusedEnv ''Users'' exampleUsers (exampleWorld 0)) =
      Inl (JsError ''could not create index'')"
    by code_simp
  ultimately show ?thesis by (simp add: mongoToSql_phases [OF example_collections(4)])
qed

lemma table_refused_run:
  "mongoToSql tableRefusedEnv ''Users'' (exampleWorld 0) =
     afterCreateTable tableRefusedEnv ''Users'' exampleUsers (exampleWorld 0)"
proof -
  have "fst (afterCreateTable tableRefusedEnv ''Users'' exampleUsers (exampleWorld 0)) =
      Inl (JsError ''permission denied'')"
    by code_simp
  then show ?thesis by (simp add: mongoToSql_phases [OF example_collections(5)])
qed

lemma map_le_dom_eq: "m \<subseteq>\<^sub>m m' \<Longrightarrow> dom m' \<subseteq> dom m \<Longrightarrow> m' = m"
proof (rule map_le_antisym)
  assume le: "m \<subseteq>\<^sub>m m'" and d: "dom m' \<subseteq> dom m"
  show "m' \<subseteq>\<^sub>m m"
    unfolding map_le_def
  proof
    fix a assume "a \<in> dom m'"
    with d have "a \<in> dom m" by auto
    with le show "m' a = m a" by (simp add: map_le_def)
  qed
  show "m \<subseteq>\<^sub>m m'" by (rule le)
qed

lemma additive_step:
  assumes "additive env rowsOf" "compile env q = Inr c"
  shows "rowsOf d \<subseteq>\<^sub>m rowsOf (snd (unsafe env c d))"
    and "dom (rowsOf (snd (unsafe env c d))) \<subseteq> dom (rowsOf d) \<union> insertKeys q"
    and "fst (unsafe env c d) = None \<Longrightarrow> insertKeys q \<subseteq> dom (rowsOf (snd (unsafe env c d)))"
  using assms unfolding additive_def by blast+

lemma additive_other:
  assumes "additive env rowsOf" "compile env q = Inr c" "insertKeys q = {}"
  shows "rowsOf (snd (unsafe env c d)) = rowsOf d"
  using additive_step(1,2) [OF assms(1,2), of d] assms(3) by (auto intro: map_le_dom_eq)

lemma sqlUnsafe_db: "db (snd (sqlUnsafe env q c w)) = snd (unsafe env c (db w))"
  by (simp add: sqlUnsafe_def split: prod.splits)

lemma createTable_db:
  "db (snd (createTable env t w)) =
     (case getSqlClientOrThrow env of
        Some e \<Rightarrow> db w
      | None \<Rightarrow> (case compile env (CreateTableQuery t) of
                   Inl e \<Rightarrow> db w
                 | Inr c \<Rightarrow> snd (unsafe env c (db w))))"
  by (auto simp: createTable_def Let_def compileQuery_def sqlUnsafe_def failedToCreateTable_def
      split: option.splits sum.splits prod.splits)

lemma createTable_rows:
  assumes "additive env rowsOf"
  shows "rowsOf (db (snd (createTable env t w))) = rowsOf (db w)"
  using additive_other [OF assms, of "CreateTableQuery t"]
  by (simp add: createTable_db split: option.splits sum.splits)

lemma forIndexQueries_rows:
  assumes "additive env rowsOf" "\<forall>q\<in>set qs. insertKeys q = {}"
  shows "rowsOf (db (snd (forIndexQueries env qs w))) = rowsOf (db w)"
  using assms(2)
proof (induction qs arbitrary: w)
  case Nil
  show ?case by simp
next
  case (Cons q qs)
  then have k: "insertKeys q = {}" and rest: "\<forall>q\<in>set qs. insertKeys q = {}" by simp_all
  show ?case
  proof (cases "compile env q")
    case (Inl e)
    then show ?thesis by (simp add: compileQuery_def)
  next
    case (Inr c)
    let ?w1 = "emit (Compile q) w"
    obtain res w2 where u: "sqlUnsafe env q c ?w1 = (res, w2)" by (cases "sqlUnsafe env q c ?w1")
    have "db w2 = snd (unsafe env c (db w))" using u sqlUnsafe_db [of env q c ?w1] by simp
    then have r2: "rowsOf (db w2) = rowsOf (db w)"
      using additive_other [OF assms(1) Inr k] by simp
    show ?thesis
    proof (cases res)
      case None
      with Inr u have "forIndexQueries env (q # qs) w = forIndexQueries env qs w2"
        by (simp add: compileQuery_def)
      with Cons.IH [OF rest, of w2] r2 show ?thesis by simp
    next
      case (Some e)
      with Inr u have "forIndexQueries env (q # qs) w = (Inl e, w2)"
        by (simp add: compileQuery_def)
      with r2 show ?thesis by simp
    qed
  qed
qed

lemma createIndexes_rows:
  assumes "additive env rowsOf"
  shows "rowsOf (db (snd (createIndexes env t w))) = rowsOf (db w)"
proof -
  have "\<forall>q\<in>set (map (\<lambda>index. CreateIndexQuery t index) (getIndexes t)). insertKeys q = {}"
    by simp
  from forIndexQueries_rows [OF assms this] show ?thesis
    by (simp add: createIndexes_def Let_def)
qed

lemma callback_db:
  "db (snd (callback env name t b w)) =
     (case compile env (insertQueryOf env name t b w) of
        Inl e \<Rightarrow> db w
      | Inr c \<Rightarrow> snd (unsafe env c (db w)))"
  by (simp add: callback_unfold sqlUnsafe_def afterFormat_frame
      split: sum.splits prod.splits option.splits)

lemma insertKeys_insertQueryOf:
  "insertKeys (insertQueryOf env name t b w) = set (ids (map (heap w) b))"
  by (simp add: insertQueryOf_def ids_afterFormat)

lemma callbackEvents_succeeded:
  "succeededIds (callbackEvents env name t b w) =
     (case compile env (insertQueryOf env name t b w) of
        Inl e \<Rightarrow> []
      | Inr c \<Rightarrow> (if fst (unsafe env c (db w)) = None then ids (map (heap w) b) else []))"
  by (auto simp: callbackEvents_def succeededIds_def insertQueryOf_def ids_afterFormat
      split: sum.splits option.splits)

lemma callback_rows:
  assumes add: "additive env rowsOf"
  shows "rowsOf (db w) \<subseteq>\<^sub>m rowsOf (db (snd (callback env name t b w))) \<and>
     dom (rowsOf (db (snd (callback env name t b w)))) \<subseteq>
       dom (rowsOf (db w)) \<union> set (ids (map (heap w) b)) \<and>
     set (succeededIds (callbackEvents env name t b w)) \<subseteq>
       dom (rowsOf (db (snd (callback env name t b w))))"
proof (cases "compile env (insertQueryOf env name t b w)")
  case (Inl e)
  then show ?thesis by (simp add: callback_db callbackEvents_succeeded)
next
  case (Inr c)
  note s = additive_step [OF add Inr, of "db w", unfolded insertKeys_insertQueryOf]
  from Inr s show ?thesis by (auto simp: callback_db callbackEvents_succeeded)
qed

lemma loop_rows:
  assumes run: "forEachBatch (callback env name t) bs w = (r, w')"
    and add: "additive env rowsOf"
  shows "rowsOf (db w) \<subseteq>\<^sub>m rowsOf (db w') \<and>
     dom (rowsOf (db w')) \<subseteq> dom (rowsOf (db w)) \<union> set (ids (map (heap w) (concat bs))) \<and>
     set (succeededIds (emitted w w')) \<subseteq> dom (rowsOf (db w'))"
  using run
proof (induction rule: forEachBatch_callback_induct)
  case (Nil w)
  show ?case by (simp add: emitted_def succeededIds_def)
next
  case (Abort b bs w e)
  have em: "emitted w (snd (callback env name t b w)) = callbackEvents env name t b w"
    by (rule emittedI) (rule callback_trace)
  from callback_rows [OF add, of w name t b] show ?case
    unfolding em by (auto simp: ids_def)
next
  case (Continue b bs w c r w')
  let ?evs = "callbackEvents env name t b w"
  let ?w1 = "snd (callback env name t b w)"
  from loop_trace [OF Continue.hyps(2)] obtain evs where tr: "trace w' = trace ?w1 @ evs" by blast
  then have e1: "emitted ?w1 w' = evs" by (rule emittedI)
  from tr have "trace w' = trace w @ (?evs @ evs)" by (simp add: callback_trace)
  then have e2: "emitted w w' = ?evs @ evs" by (rule emittedI)
  have h: "ids (map (heap ?w1) (concat bs)) = ids (map (heap w) (concat bs))"
    by (simp add: callback_heap ids_afterFormat)
  have i: "set (ids (map (heap w) (concat (b # bs)))) =
      set (ids (map (heap w) b)) \<union> set (ids (map (heap w) (concat bs)))"
    by (simp add: ids_def)
  from callback_rows [OF add, of w name t b] have
    c1: "rowsOf (db w) \<subseteq>\<^sub>m rowsOf (db ?w1)" and
    c2: "dom (rowsOf (db ?w1)) \<subseteq> dom (rowsOf (db w)) \<union> set (ids (map (heap w) b))" and
    c3: "set (succeededIds ?evs) \<subseteq> dom (rowsOf (db ?w1))" by simp_all
  from Continue.IH have
    i1: "rowsOf (db ?w1) \<subseteq>\<^sub>m rowsOf (db w')" and
    i2: "dom (rowsOf (db w')) \<subseteq> dom (rowsOf (db ?w1)) \<union> set (ids (map (heap w) (concat bs)))" and
    i3: "set (succeededIds evs) \<subseteq> dom (rowsOf (db w'))"
    unfolding e1 h by simp_all
  from c1 i1 have 1: "rowsOf (db w) \<subseteq>\<^sub>m rowsOf (db w')" by (rule map_le_trans)
  from c2 i2 have 2: "dom (rowsOf (db w')) \<subseteq>
      dom (rowsOf (db w)) \<union> set (ids (map (heap w) (concat (b # bs))))"
    unfolding i by blast
  from i1 have "dom (rowsOf (db ?w1)) \<subseteq> dom (rowsOf (db w'))" by (rule map_le_implies_dom_le)
  with c3 i3 have 3: "set (succeededIds (emitted w w')) \<subseteq> dom (rowsOf (db w'))"
    unfolding e2 by (auto simp: succeededIds_def)
  from 1 2 3 show ?case by simp
qed

lemma failedIds_Nil_succeeded:
  "failedIds evs = [] \<Longrightarrow> succeededIds evs = attemptedIds evs"
proof (induction evs)
  case Nil
  show ?case by (simp add: succeededIds_def attemptedIds_def)
next
  case (Cons ev evs)
  have a: "attemptedIds (ev # evs) = attemptedIdsOf ev @ attemptedIds evs"
    and f: "failedIds (ev # evs) = failedIdsOf ev @ failedIds evs"
    and s: "succeededIds (ev # evs) = succeededIdsOf ev @ succeededIds evs"
    by (simp_all add: attemptedIds_def failedIds_def succeededIds_def)
  from Cons.prems have "failedIdsOf ev = []" "failedIds evs = []" unfolding f by simp_all
  with Cons.IH idsOf_cases [of ev] show ?case unfolding a s by auto
qed

lemma copyData_rows:
  assumes run: "copyData env name c t w = (r, w')" and add: "additive env rowsOf"
  shows "rowsOf (db w) \<subseteq>\<^sub>m rowsOf (db w') \<and>
     dom (rowsOf (db w')) \<subseteq> dom (rowsOf (db w)) \<union> set (ids (map (heap w) (documents c))) \<and>
     (r = Inr () \<longrightarrow> errorIds w' = [] \<longrightarrow>
        set (ids (map (heap w) (documents c))) \<subseteq> dom (rowsOf (db w')))"
proof -
  let ?w2 = "(console LevelLog CopyingData w)\<lparr>errorIds := [], count := 0\<rparr>"
  let ?bs = "batches batchSize (documents c)"
  from run have f: "forEachBatch (callback env name t) ?bs ?w2 = (r, w')"
    by (simp add: copyData_unfold)
  have c: "concat ?bs = documents c" by (rule batches_concat) (simp add: batchSize_def)
  from loop_rows [OF f add] c have
    1: "rowsOf (db w) \<subseteq>\<^sub>m rowsOf (db w')" and
    2: "dom (rowsOf (db w')) \<subseteq> dom (rowsOf (db w)) \<union> set (ids (map (heap w) (documents c)))" and
    3: "set (succeededIds (emitted ?w2 w')) \<subseteq> dom (rowsOf (db w'))" by simp_all
  from loop_trace [OF f] obtain evs where tr: "trace w' = trace ?w2 @ evs"
    and er: "errorIds w' = errorIds ?w2 @ failedIds evs" by blast
  from tr have em: "emitted ?w2 w' = evs" by (rule emittedI)
  have 4: "r = Inr () \<longrightarrow> errorIds w' = [] \<longrightarrow>
        set (ids (map (heap w) (documents c))) \<subseteq> dom (rowsOf (db w'))"
  proof (intro impI)
    assume r: "r = Inr ()" and e: "errorIds w' = []"
    from e er have "failedIds evs = []" by simp
    then have "succeededIds evs = attemptedIds evs" by (rule failedIds_Nil_succeeded)
    moreover from loop_result [OF f] r c em
    have "attemptedIds evs = ids (map (heap w) (documents c))" by simp
    ultimately show "set (ids (map (heap w) (documents c))) \<subseteq> dom (rowsOf (db w'))"
      using 3 em by simp
  qed
  from 1 2 4 show ?thesis by simp
qed

lemma mongoToSql_rows:
  assumes run: "mongoToSql env name w = (r, w')" and col: "getCollection env name = Some c"
    and add: "additive env rowsOf"
  shows "rowsOf (db w) \<subseteq>\<^sub>m rowsOf (db w') \<and>
     dom (rowsOf (db w')) \<subseteq> dom (rowsOf (db w)) \<union> set (ids (map (heap w) (documents c))) \<and>
     (r = Inr () \<longrightarrow> errorIds w' = [] \<longrightarrow>
        set (ids (map (heap w) (documents c))) \<subseteq> dom (rowsOf (db w')))"
proof -
  let ?t = "fromCollection env c"
  let ?w3 = "snd (buildSchema env c (afterLookup name w))"
  have d3: "db ?w3 = db w" by (simp add: buildSchema_frame afterLookup_frame)
  have h3: "heap ?w3 = heap w" by (simp add: buildSchema_frame afterLookup_frame)
  from run col show ?thesis
  proof (cases rule: mongoToSql_cases)
    case (TableFailed e)
    then have "rowsOf (db w') = rowsOf (db w)"
      using createTable_rows [OF add, of ?t ?w3] d3 by simp
    with TableFailed(2) show ?thesis by simp
  next
    case (IndexesFailed e w4)
    then have "rowsOf (db w') = rowsOf (db w)"
      using createTable_rows [OF add, of ?t ?w3] createIndexes_rows [OF add, of ?t w4] d3
      by simp
    with IndexesFailed(3) show ?thesis by simp
  next
    case (CopyFailed e w4 w5)
    then have r5: "rowsOf (db w5) = rowsOf (db w)"
      using createTable_rows [OF add, of ?t ?w3] createIndexes_rows [OF add, of ?t w4] d3
      by simp
    from CopyFailed have h5: "heap w5 = heap w"
      using createTable_heap [of env ?t ?w3] createIndexes_heap [of env ?t w4] h3 by simp
    from copyData_rows [OF CopyFailed(3) add] r5 h5 CopyFailed(4) show ?thesis by simp
  next
    case (Finished w4 w5 w6)
    then have r5: "rowsOf (db w5) = rowsOf (db w)"
      using createTable_rows [OF add, of ?t ?w3] createIndexes_rows [OF add, of ?t w4] d3
      by simp
    from Finished have h5: "heap w5 = heap w"
      using createTable_heap [of env ?t ?w3] createIndexes_heap [of env ?t w4] h3 by simp
    from copyData_rows [OF Finished(3) add] r5 h5 Finished(4)
    show ?thesis by (simp add: finish_frame)
  qed
qed

lemma run_strategies:
  assumes run: "mongoToSql env name w = (r, w')"
    and ev: "ev \<in> set (emitted w w')" and q: "q \<in> set (queryOf ev)"
    and s: "s \<in> set (insertStrategies q)"
  shows "s = ConflictIgnore"
proof (cases "getCollection env name")
  case None
  from ev q show ?thesis
    unfolding mongoToSql_invalid_emitted [OF run None] by (auto simp: lookupEvents_def)
next
  case (Some c)
  from mongoToSql_shape [OF run Some] obtain tb ix cp fin where
    sh: "runShape env name c w r w' tb ix cp fin" by blast
  from s obtain t ds where qi: "q = InsertQuery t ds s" by (cases q) auto
  with q have "phaseOf ev = Copying" by (cases ev) auto
  from runShape_segment(4) [OF sh ev this] have "ev \<in> set cp" .
  moreover from sh have "\<forall>ev\<in>set cp. \<forall>q\<in>set (queryOf ev).
      \<exists>ds. q = InsertQuery (fromCollection env c) ds ConflictIgnore \<and> length ds \<le> batchSize"
    by (simp add: runShape_def)
  ultimately obtain ds' where "q = InsertQuery (fromCollection env c) ds' ConflictIgnore"
    using q by blast
  with qi show ?thesis by simp
qed

lemma insertIgnore_rows:
  "map_of rows \<subseteq>\<^sub>m map_of (insertIgnore ds rows) \<and>
   dom (map_of (insertIgnore ds rows)) = dom (map_of rows) \<union> set (ids ds)"
proof (induction ds arbitrary: rows)
  case Nil
  show ?case by (simp add: ids_def)
next
  case (Cons d ds)
  let ?k = "getProp d ''_id''"
  let ?rows1 = "if ?k \<in> fst ` set rows then rows else rows @ [(?k, d)]"
  have 1: "map_of rows \<subseteq>\<^sub>m map_of ?rows1"
  proof (cases "?k \<in> fst ` set rows")
    case True
    then show ?thesis by simp
  next
    case False
    have "map_of rows \<subseteq>\<^sub>m map_of [(?k, d)] ++ map_of rows" by (rule map_le_map_add)
    with False show ?thesis by simp
  qed
  have 2: "dom (map_of ?rows1) = insert ?k (dom (map_of rows))"
  proof (cases "?k \<in> fst ` set rows")
    case True
    then show ?thesis by (simp add: dom_map_of_conv_image_fst insert_absorb)
  next
    case False
    then show ?thesis by (simp add: dom_map_of_conv_image_fst)
  qed
  from Cons.IH [of ?rows1] have
    3: "map_of ?rows1 \<subseteq>\<^sub>m map_of (insertIgnore ds ?rows1)" and
    4: "dom (map_of (insertIgnore ds ?rows1)) = dom (map_of ?rows1) \<union> set (ids ds)" by simp_all
  from 1 3 have "map_of rows \<subseteq>\<^sub>m map_of (insertIgnore ds ?rows1)" by (rule map_le_trans)
  moreover from 2 4 have "dom (map_of (insertIgnore ds ?rows1)) =
      dom (map_of rows) \<union> set (ids (d # ds))" by (simp add: ids_def)
  ultimately show ?case by simp
qed

lemma exampleUnsafe_additive:
  "exampleRows d \<subseteq>\<^sub>m exampleRows (snd (exampleUnsafe q d)) \<and>
   dom (exampleRows (snd (exampleUnsafe q d))) \<subseteq> dom (exampleRows d) \<union> insertKeys q \<and>
   (fst (exampleUnsafe q d) = None \<longrightarrow> insertKeys q \<subseteq> dom (exampleRows (snd (exampleUnsafe q d))))"
proof (cases d)
  case (Pair n rows)
  show ?thesis
  proof (cases q)
    case (CreateTableQuery t)
    with Pair show ?thesis by (simp add: exampleRows_def)
  next
    case (CreateIndexQuery t i)
    with Pair show ?thesis by (simp add: exampleRows_def)
  next
    case (InsertQuery t ds s)
    with Pair insertIgnore_rows [of rows ds] show ?thesis
      by (cases s) (auto simp: exampleRows_def)
  qed
qed

lemma example_additive: "additive exampleEnv exampleRows"
  unfolding additive_def
proof (intro allI impI)
  fix q c d assume "compile exampleEnv q = Inr c"
  then have "c = q" by (cases q) (auto simp: exampleEnv_def split: if_splits)
  with exampleUnsafe_additive [of d q]
  show "exampleRows d \<subseteq>\<^sub>m exampleRows (snd (unsafe exampleEnv c d)) \<and>
        dom (exampleRows (snd (unsafe exampleEnv c d))) \<subseteq> dom (exampleRows d) \<union> insertKeys q \<and>
        (fst (unsafe exampleEnv c d) = None \<longrightarrow>
           insertKeys q \<subseteq> dom (exampleRows (snd (unsafe exampleEnv c d))))"
    by (simp add: exampleEnv_def)
qed

lemma rerun_flaky:
  "mongoToSql exampleEnv ''Posts'' (rerun flakyWorld) =
     (Inr (), finish ''Posts'' (snd (afterCopyData exampleEnv ''Posts'' examplePosts
        ((finish ''Posts'' (snd (afterCopyData exampleEnv ''Posts'' examplePosts flakyWorld)))
           \<lparr>heap := heap flakyWorld\<rparr>))))"
proof -
  let ?w = "(finish ''Posts'' (snd (afterCopyData exampleEnv ''Posts'' examplePosts flakyWorld)))
           \<lparr>heap := heap flakyWorld\<rparr>"
  have w: "rerun flakyWorld = ?w" by (simp add: rerun_def posts_run_flaky)
  have "fst (afterCreateTable exampleEnv ''Posts'' examplePosts ?w) = Inr ()" by code_simp
  moreover have "fst (afterCreateIndexes exampleEnv ''Posts'' examplePosts ?w) = Inr ()"
    by code_simp
  moreover have "fst (afterCopyData exampleEnv ''Posts'' examplePosts ?w) = Inr ()" by code_simp
  ultimately show ?thesis
    unfolding w by (simp add: mongoToSql_phases [OF example_collections(1)])
qed

lemma repaired_refl: "repaired h h"
  by (simp add: repaired_def)

lemma repaired_trans:
  assumes "repaired h h'" "repaired h' h''"
  shows "repaired h h''"
  unfolding repaired_def
proof (intro allI conjI impI)
  fix x k
  assume "k \<noteq> ''scoreExceeded75Date''" "k \<noteq> ''title''"
  with assms show "getProp (h'' x) k = getProp (h x) k" by (simp add: repaired_def)
next
  fix x
  assume "\<not> typeofBoolean (getProp (h x) ''scoreExceeded75Date'')"
  with assms show "getProp (h'' x) ''scoreExceeded75Date'' = getProp (h x) ''scoreExceeded75Date''"
    by (simp add: repaired_def)
next
  fix x
  assume n: "getProp (h'' x) ''scoreExceeded75Date'' \<noteq> getProp (h x) ''scoreExceeded75Date''"
  from assms have
    1: "getProp (h' x) ''scoreExceeded75Date'' \<noteq> getProp (h x) ''scoreExceeded75Date'' \<longrightarrow>
             (\<exists>t. getProp (h' x) ''scoreExceeded75Date'' = JDate t)"
    and 2: "getProp (h'' x) ''scoreExceeded75Date'' \<noteq> getProp (h' x) ''scoreExceeded75Date'' \<longrightarrow>
             (\<exists>t. getProp (h'' x) ''scoreExceeded75Date'' = JDate t)"
    by (simp_all add: repaired_def)
  show "\<exists>t. getProp (h'' x) ''scoreExceeded75Date'' = JDate t"
  proof (cases "getProp (h'' x) ''scoreExceeded75Date'' = getProp (h' x) ''scoreExceeded75Date''")
    case True
    with n 1 show ?thesis by simp
  next
    case False
    with 2 show ?thesis by simp
  qed
next
  fix x
  assume "\<not> falsy (getProp (h x) ''title'')"
  with assms show "getProp (h'' x) ''title'' = getProp (h x) ''title''"
    by (simp add: repaired_def)
next
  fix x
  assume n: "getProp (h'' x) ''title'' \<noteq> getProp (h x) ''title''"
  from assms have
    1: "getProp (h' x) ''title'' \<noteq> getProp (h x) ''title'' \<longrightarrow> getProp (h' x) ''title'' = JStr ''''"
    and 2: "getProp (h'' x) ''title'' \<noteq> getProp (h' x) ''title'' \<longrightarrow>
        getProp (h'' x) ''title'' = JStr ''''"
    by (simp_all add: repaired_def)
  show "getProp (h'' x) ''title'' = JStr ''''"
  proof (cases "getProp (h'' x) ''title'' = getProp (h' x) ''title''")
    case True
    with n 1 show ?thesis by simp
  next
    case False
    with 2 show ?thesis by simp
  qed
next
  fix x
  assume a: "\<not> typeofBoolean (getProp (h x) ''scoreExceeded75Date'')" "\<not> falsy (getProp (h x) ''title'')"
  with assms(1) have 1: "h' x = h x" by (simp add: repaired_def)
  with a assms(2) have "h'' x = h' x" by (simp add: repaired_def)
  with 1 show "h'' x = h x" by simp
qed

lemma formatPosts_title:
  "getProp (heap (snd (formatPosts env r w)) r) ''title'' =
     (if falsy (getProp (heap w r) ''title'') then JStr '''' else getProp (heap w r) ''title'')"
  by (simp add: formatPosts_def Let_def dateNow_def getProp_setProp)

lemma formatPosts_no_repair:
  "\<not> typeofBoolean (getProp (heap w r) ''scoreExceeded75Date'') \<Longrightarrow>
   \<not> falsy (getProp (heap w r) ''title'') \<Longrightarrow> snd (formatPosts env r w) = w"
  by (simp add: formatPosts_def Let_def)

lemma formatPosts_repaired: "repaired (heap w) (heap (snd (formatPosts env r w)))"
  unfolding repaired_def
proof (intro allI)
  fix x
  show "(\<forall>k. k \<noteq> ''scoreExceeded75Date'' \<longrightarrow> k \<noteq> ''title'' \<longrightarrow>
                getProp (heap (snd (formatPosts env r w)) x) k = getProp (heap w x) k) \<and>
          (\<not> typeofBoolean (getProp (heap w x) ''scoreExceeded75Date'') \<longrightarrow>
             getProp (heap (snd (formatPosts env r w)) x) ''scoreExceeded75Date'' =
             getProp (heap w x) ''scoreExceeded75Date'') \<and>
          (getProp (heap (snd (formatPosts env r w)) x) ''scoreExceeded75Date'' \<noteq>
             getProp (heap w x) ''scoreExceeded75Date'' \<longrightarrow>
             (\<exists>t. getProp (heap (snd (formatPosts env r w)) x) ''scoreExceeded75Date'' = JDate t)) \<and>
          (\<not> falsy (getProp (heap w x) ''title'') \<longrightarrow>
             getProp (heap (snd (formatPosts env r w)) x) ''title'' = getProp (heap w x) ''title'') \<and>
          (getProp (heap (snd (formatPosts env r w)) x) ''title'' \<noteq> getProp (heap w x) ''title'' \<longrightarrow>
             getProp (heap (snd (formatPosts env r w)) x) ''title'' = JStr '''') \<and>
          (\<not> typeofBoolean (getProp (heap w x) ''scoreExceeded75Date'') \<longrightarrow>
           \<not> falsy (getProp (heap w x) ''title'') \<longrightarrow> heap (snd (formatPosts env r w)) x = heap w x)"
  proof (cases "x = r")
    case True
    show ?thesis
      unfolding True
      by (simp add: formatPosts_other_prop formatPosts_date formatPosts_title formatPosts_no_repair)
  next
    case False
    then show ?thesis by (simp add: formatPosts_other_ref)
  qed
qed

lemma formatPosts_clean: "clean (heap (snd (formatPosts env r w)) r)"
  by (auto simp: clean_def formatPosts_date formatPosts_title)

lemma repaired_clean:
  assumes "repaired h h'" "clean (h x)"
  shows "clean (h' x)"
proof -
  from assms(2) have c: "\<not> typeofBoolean (getProp (h x) ''scoreExceeded75Date'')"
    "falsy (getProp (h x) ''title'') \<longrightarrow> getProp (h x) ''title'' = JStr ''''"
    by (simp_all add: clean_def)
  from assms(1) c(1) have 1: "getProp (h' x) ''scoreExceeded75Date'' =
      getProp (h x) ''scoreExceeded75Date''"
    by (simp add: repaired_def)
  from assms(1) have 2: "getProp (h' x) ''title'' \<noteq> getProp (h x) ''title'' \<longrightarrow>
      getProp (h' x) ''title'' = JStr ''''"
    by (simp add: repaired_def)
  show ?thesis
  proof (cases "getProp (h' x) ''title'' = getProp (h x) ''title''")
    case True
    with 1 c show ?thesis by (simp add: clean_def)
  next
    case False
    with 2 1 c(1) show ?thesis by (simp add: clean_def)
  qed
qed

lemma formatData_repaired: "repaired (heap w) (heap (snd (formatData env name r w)))"
  using formatData_cases [of name env] by (auto simp: formatPosts_repaired repaired_refl)

lemma formatData_untouched: "x \<noteq> r \<Longrightarrow> heap (snd (formatData env name r w)) x = heap w x"
  using formatData_cases [of name env] by (auto simp: formatPosts_other_ref)

lemma mapFormat_repaired: "repaired (heap w) (heap (snd (mapFormat (formatData env name) ds w)))"
proof (induction ds arbitrary: w)
  case Nil
  show ?case by (simp add: repaired_refl)
next
  case (Cons d ds)
  obtain d' w1 where f: "formatData env name d w = (d', w1)" by (cases "formatData env name d w")
  obtain ds' w2 where m: "mapFormat (formatData env name) ds w1 = (ds', w2)"
    by (cases "mapFormat (formatData env name) ds w1")
  from f have "repaired (heap w) (heap w1)" using formatData_repaired [of w env name d] by simp
  moreover from m have "repaired (heap w1) (heap w2)" using Cons.IH [of w1] by simp
  ultimately have "repaired (heap w) (heap w2)" by (rule repaired_trans)
  then show ?case using f m by simp
qed

lemma mapFormat_untouched:
  "x \<notin> set ds \<Longrightarrow> heap (snd (mapFormat (formatData env name) ds w)) x = heap w x"
proof (induction ds arbitrary: w)
  case Nil
  show ?case by simp
next
  case (Cons d ds)
  obtain d' w1 where f: "formatData env name d w = (d', w1)" by (cases "formatData env name d w")
  obtain ds' w2 where m: "mapFormat (formatData env name) ds w1 = (ds', w2)"
    by (cases "mapFormat (formatData env name) ds w1")
  from f Cons.prems have "heap w1 x = heap w x" using formatData_untouched [of x d env name w] by simp
  moreover from m Cons.prems have "heap w2 x = heap w1 x" using Cons.IH [of w1] by simp
  ultimately show ?case using f m by simp
qed

lemma mapFormat_Posts_clean:
  "x \<in> set ds \<Longrightarrow> clean (heap (snd (mapFormat (formatPosts env) ds w)) x)"
proof (induction ds arbitrary: w)
  case Nil
  then show ?case by simp
next
  case (Cons d ds)
  obtain d' w1 where f: "formatPosts env d w = (d', w1)" by (cases "formatPosts env d w")
  obtain ds' w2 where m: "mapFormat (formatPosts env) ds w1 = (ds', w2)"
    by (cases "mapFormat (formatPosts env) ds w1")
  have res: "snd (mapFormat (formatPosts env) (d # ds) w) = w2" using f m by simp
  show ?case
  proof (cases "x \<in> set ds")
    case True
    from Cons.IH [OF True, of w1] m show ?thesis unfolding res by simp
  next
    case False
    with Cons.prems have "x = d" by simp
    with f have "clean (heap w1 x)" using formatPosts_clean [of env d w] by simp
    moreover have "repaired (heap w1) (heap w2)"
      using mapFormat_repaired [of w1 env "''Posts''" ds] m by (simp add: formatData_Posts)
    ultimately show ?thesis unfolding res by (rule repaired_clean [rotated])
  qed
qed

lemma afterFormat_repaired: "repaired (heap w) (heap (afterFormat env name b w))"
  using mapFormat_repaired [of "(console LevelLog (MigratingDocuments (length b) (count w)) w)
          \<lparr>count := count w + batchSize\<rparr>" env name b]
  by (simp add: afterFormat_def)

lemma afterFormat_untouched: "x \<notin> set b \<Longrightarrow> heap (afterFormat env name b w) x = heap w x"
  using mapFormat_untouched [of x b env name "(console LevelLog (MigratingDocuments (length b) (count w)) w)
          \<lparr>count := count w + batchSize\<rparr>"]
  by (simp add: afterFormat_def)

lemma afterFormat_Posts_clean: "x \<in> set b \<Longrightarrow> clean (heap (afterFormat env ''Posts'' b w) x)"
  by (simp add: afterFormat_Posts mapFormat_Posts_clean)

lemma loop_repaired:
  assumes "forEachBatch (callback env name t) bs w = (r, w')"
  shows "repaired (heap w) (heap w') \<and>
         (\<forall>x. x \<notin> set (concat bs) \<longrightarrow> heap w' x = heap w x) \<and>
         (name = ''Posts'' \<longrightarrow> r = Inr () \<longrightarrow> (\<forall>x\<in>set (concat bs). clean (heap w' x)))"
  using assms
proof (induction rule: forEachBatch_callback_induct)
  case (Nil w)
  show ?case by (simp add: repaired_refl)
next
  case (Abort b bs w e)
  show ?case by (simp add: callback_heap afterFormat_repaired afterFormat_untouched)
next
  case (Continue b bs w c r w')
  let ?w1 = "snd (callback env name t b w)"
  have h1: "heap ?w1 = heap (afterFormat env name b w)" by (rule callback_heap)
  from Continue.IH have ih: "repaired (heap ?w1) (heap w')"
    "\<forall>x. x \<notin> set (concat bs) \<longrightarrow> heap w' x = heap ?w1 x"
    "name = ''Posts'' \<longrightarrow> r = Inr () \<longrightarrow> (\<forall>x\<in>set (concat bs). clean (heap w' x))"
    by simp_all
  have 1: "repaired (heap w) (heap w')"
    using afterFormat_repaired [of w env name b] ih(1) unfolding h1 by (rule repaired_trans)
  have 2: "\<forall>x. x \<notin> set (concat (b # bs)) \<longrightarrow> heap w' x = heap w x"
    using ih(2) by (simp add: h1 afterFormat_untouched)
  have 3: "name = ''Posts'' \<longrightarrow> r = Inr () \<longrightarrow> (\<forall>x\<in>set (concat (b # bs)). clean (heap w' x))"
  proof (intro impI ballI)
    fix x assume n: "name = ''Posts''" and r: "r = Inr ()" and x: "x \<in> set (concat (b # bs))"
    show "clean (heap w' x)"
    proof (cases "x \<in> set (concat bs)")
      case True
      with ih(3) n r show ?thesis by blast
    next
      case False
      with x have "x \<in> set b" by simp
      then have "clean (heap (afterFormat env ''Posts'' b w) x)" by (rule afterFormat_Posts_clean)
      then have "clean (heap ?w1 x)" unfolding n by (simp add: callback_heap)
      with ih(1) show ?thesis by (rule repaired_clean)
    qed
  qed
  from 1 2 3 show ?case by simp
qed

lemma copyData_repaired:
  assumes "copyData env name c t w = (r, w')"
  shows "repaired (heap w) (heap w') \<and>
         (\<forall>x. x \<notin> set (documents c) \<longrightarrow> heap w' x = heap w x) \<and>
         (name = ''Posts'' \<longrightarrow> r = Inr () \<longrightarrow> (\<forall>x\<in>set (documents c). clean (heap w' x)))"
proof -
  have c: "concat (batches batchSize (documents c)) = documents c"
    by (rule batches_concat) (simp add: batchSize_def)
  from loop_repaired [of env name t "batches batchSize (documents c)"
      "(console LevelLog CopyingData w)\<lparr>errorIds := [], count := 0\<rparr>" r w'] assms
  show ?thesis unfolding c by (simp add: copyData_unfold)
qed

lemma mongoToSql_repaired:
  assumes run: "mongoToSql env name w = (r, w')"
  shows "repaired (heap w) (heap w')"
    and "getCollection env name = None \<Longrightarrow> heap w' = heap w"
    and "getCollection env name = Some c \<Longrightarrow> x \<notin> set (documents c) \<Longrightarrow> heap w' x = heap w x"
    and "getCollection env name = Some c \<Longrightarrow> name = ''Posts'' \<Longrightarrow> r = Inr () \<Longrightarrow>
         x \<in> set (documents c) \<Longrightarrow> clean (heap w' x)"
proof -
  have n: "getCollection env name = None \<Longrightarrow> heap w' = heap w"
    using run by (auto simp: mongoToSql_invalid afterLookup_frame)
  show "getCollection env name = None \<Longrightarrow> heap w' = heap w" by (rule n)
  have s: "repaired (heap w) (heap w') \<and> (x \<notin> set (documents c) \<longrightarrow> heap w' x = heap w x) \<and>
      (name = ''Posts'' \<longrightarrow> r = Inr () \<longrightarrow> x \<in> set (documents c) \<longrightarrow> clean (heap w' x))"
    if col: "getCollection env name = Some c" for c x
  proof -
    let ?t = "fromCollection env c"
    let ?w3 = "snd (buildSchema env c (afterLookup name w))"
    have h3: "heap ?w3 = heap w" by (simp add: buildSchema_frame afterLookup_frame)
    from run col show ?thesis
    proof (cases rule: mongoToSql_cases)
      case (TableFailed e)
      then show ?thesis using createTable_heap [of env ?t ?w3] h3 by (simp add: repaired_refl)
    next
      case (IndexesFailed e w4)
      then show ?thesis
        using createTable_heap [of env ?t ?w3] createIndexes_heap [of env ?t w4] h3
        by (simp add: repaired_refl)
    next
      case (CopyFailed e w4 w5)
      then have "heap w5 = heap w"
        using createTable_heap [of env ?t ?w3] createIndexes_heap [of env ?t w4] h3 by simp
      with copyData_repaired [OF CopyFailed(3)] CopyFailed(4) show ?thesis by simp
    next
      case (Finished w4 w5 w6)
      then have "heap w5 = heap w"
        using createTable_heap [of env ?t ?w3] createIndexes_heap [of env ?t w4] h3 by simp
      with copyData_repaired [OF Finished(3)] Finished(4) show ?thesis by (simp add: finish_frame)
    qed
  qed
  show "getCollection env name = Some c \<Longrightarrow> x \<notin> set (documents c) \<Longrightarrow> heap w' x = heap w x"
    using s by simp
  show "getCollection env name = Some c \<Longrightarrow> name = ''Posts'' \<Longrightarrow> r = Inr () \<Longrightarrow>
         x \<in> set (documents c) \<Longrightarrow> clean (heap w' x)"
    using s by simp
  show "repaired (heap w) (heap w')"
  proof (cases "getCollection env name")
    case None
    with n show ?thesis by (simp add: repaired_refl)
  next
    case (Some c)
    with s show ?thesis by simp
  qed
qed

lemma length_booleanDates:
  "length (booleanDates h ds) =
     card {x \<in> set ds. typeofBoolean (getProp (h x) ''scoreExceeded75Date'')}"
proof -
  have "distinct (booleanDates h ds)" by (simp add: booleanDates_def)
  then have "card (set (booleanDates h ds)) = length (booleanDates h ds)" by (rule distinct_card)
  moreover have "set (booleanDates h ds) =
      {x \<in> set ds. typeofBoolean (getProp (h x) ''scoreExceeded75Date'')}"
    by (auto simp: booleanDates_def)
  ultimately show ?thesis by simp
qed

lemma formatPosts_boolean:
  "typeofBoolean (getProp (heap (snd (formatPosts env d w)) x) ''scoreExceeded75Date'') \<longleftrightarrow>
   x \<noteq> d \<and> typeofBoolean (getProp (heap w x) ''scoreExceeded75Date'')"
proof (cases "x = d")
  case True
  then show ?thesis by (simp add: formatPosts_date)
next
  case False
  then show ?thesis by (simp add: formatPosts_other_ref)
qed

lemma booleans_after_formatPosts:
  "{x \<in> S. typeofBoolean (getProp (heap (snd (formatPosts env d w)) x) ''scoreExceeded75Date'')} =
   {x \<in> S. typeofBoolean (getProp (heap w x) ''scoreExceeded75Date'')} - {d}"
  by (auto simp: formatPosts_boolean)

lemma card_booleans_Cons:
  assumes "finite S"
  shows "card {x \<in> insert d S. typeofBoolean (getProp (h x) ''scoreExceeded75Date'')} =
     (if typeofBoolean (getProp (h d) ''scoreExceeded75Date'') then 1 else 0) +
     card ({x \<in> S. typeofBoolean (getProp (h x) ''scoreExceeded75Date'')} - {d})"
proof (cases "typeofBoolean (getProp (h d) ''scoreExceeded75Date'')")
  case True
  let ?B = "{x \<in> S. typeofBoolean (getProp (h x) ''scoreExceeded75Date'')}"
  from True have eq: "{x \<in> insert d S. typeofBoolean (getProp (h x) ''scoreExceeded75Date'')} =
      insert d (?B - {d})" by auto
  from assms have "card (insert d (?B - {d})) = Suc (card (?B - {d}))"
    by (intro card_insert_disjoint) simp_all
  with True show ?thesis unfolding eq by (simp del: insert_Diff_single)
next
  case False
  then have "{x \<in> insert d S. typeofBoolean (getProp (h x) ''scoreExceeded75Date'')} =
      {x \<in> S. typeofBoolean (getProp (h x) ''scoreExceeded75Date'')} - {d}" by auto
  with False show ?thesis by simp
qed

lemma mapFormat_Posts_clock_card:
  "clock (snd (mapFormat (formatPosts env) ds w)) =
     clock w + card {x \<in> set ds. typeofBoolean (getProp (heap w x) ''scoreExceeded75Date'')}"
proof (induction ds arbitrary: w)
  case Nil
  show ?case by simp
next
  case (Cons d ds)
  obtain d' w1 where f: "formatPosts env d w = (d', w1)" by (cases "formatPosts env d w")
  obtain ds' w2 where m: "mapFormat (formatPosts env) ds w1 = (ds', w2)"
    by (cases "mapFormat (formatPosts env) ds w1")
  have res: "snd (mapFormat (formatPosts env) (d # ds) w) = w2" using f m by simp
  have w1: "w1 = snd (formatPosts env d w)" using f by simp
  have c1: "clock w1 = clock w +
      (if typeofBoolean (getProp (heap w d) ''scoreExceeded75Date'') then 1 else 0)"
    unfolding w1 by (simp add: formatPosts_clock)
  have "clock w2 = clock w1 +
      card {x \<in> set ds. typeofBoolean (getProp (heap w1 x) ''scoreExceeded75Date'')}"
    using Cons.IH [of w1] m by simp
  also have "{x \<in> set ds. typeofBoolean (getProp (heap w1 x) ''scoreExceeded75Date'')} =
      {x \<in> set ds. typeofBoolean (getProp (heap w x) ''scoreExceeded75Date'')} - {d}"
    unfolding w1 by (rule booleans_after_formatPosts)
  finally show ?case
    unfolding res using c1 card_booleans_Cons [of "set ds" d "heap w"] by simp
qed

lemma mapFormat_Posts_stamp_card:
  "r \<in> set ds \<Longrightarrow> typeofBoolean (getProp (heap w r) ''scoreExceeded75Date'') \<Longrightarrow>
   getProp (heap (snd (mapFormat (formatPosts env) ds w)) r) ''scoreExceeded75Date'' =
     JDate (now env (clock w +
       card {x \<in> set (takeWhile (\<lambda>d. d \<noteq> r) ds).
               typeofBoolean (getProp (heap w x) ''scoreExceeded75Date'')}))"
proof (induction ds arbitrary: w)
  case Nil
  then show ?case by simp
next
  case (Cons d ds)
  obtain d' w1 where f: "formatPosts env d w = (d', w1)" by (cases "formatPosts env d w")
  obtain ds' w2 where m: "mapFormat (formatPosts env) ds w1 = (ds', w2)"
    by (cases "mapFormat (formatPosts env) ds w1")
  have res: "snd (mapFormat (formatPosts env) (d # ds) w) = w2" using f m by simp
  have w1: "w1 = snd (formatPosts env d w)" using f by simp
  have w2: "w2 = snd (mapFormat (formatPosts env) ds w1)" using m by simp
  show ?case
  proof (cases "r = d")
    case True
    with Cons.prems have 1: "getProp (heap w1 r) ''scoreExceeded75Date'' = JDate (now env (clock w))"
      unfolding w1 by (simp add: formatPosts_date)
    then have "\<not> typeofBoolean (getProp (heap w1 r) ''scoreExceeded75Date'')" by simp
    then have "getProp (heap w2 r) ''scoreExceeded75Date'' =
        getProp (heap w1 r) ''scoreExceeded75Date''"
      unfolding w2 by (rule mapFormat_Posts_keeps)
    with 1 True show ?thesis unfolding res by simp
  next
    case False
    with Cons.prems have r: "r \<in> set ds" by simp
    from False Cons.prems have b: "typeofBoolean (getProp (heap w1 r) ''scoreExceeded75Date'')"
      unfolding w1 by (simp add: formatPosts_boolean)
    let ?S = "set (takeWhile (\<lambda>d. d \<noteq> r) ds)"
    have c1: "clock w1 = clock w +
        (if typeofBoolean (getProp (heap w d) ''scoreExceeded75Date'') then 1 else 0)"
      unfolding w1 by (simp add: formatPosts_clock)
    have "getProp (heap w2 r) ''scoreExceeded75Date'' =
        JDate (now env (clock w1 +
          card {x \<in> ?S. typeofBoolean (getProp (heap w1 x) ''scoreExceeded75Date'')}))"
      unfolding w2 using r b by (rule Cons.IH)
    also have "{x \<in> ?S. typeofBoolean (getProp (heap w1 x) ''scoreExceeded75Date'')} =
        {x \<in> ?S. typeofBoolean (getProp (heap w x) ''scoreExceeded75Date'')} - {d}"
      unfolding w1 by (rule booleans_after_formatPosts)
    finally have 2: "getProp (heap w2 r) ''scoreExceeded75Date'' =
        JDate (now env (clock w1 +
          card ({x \<in> ?S. typeofBoolean (getProp (heap w x) ''scoreExceeded75Date'')} - {d})))" .
    have t: "set (takeWhile (\<lambda>d. d \<noteq> r) (d # ds)) = insert d ?S" using False by simp
    show ?thesis
      unfolding res 2 t using c1 card_booleans_Cons [of ?S d "heap w"] by simp
  qed
qed

lemma mapFormat_Posts_clock_exact:
  "clock (snd (mapFormat (formatPosts env) ds w)) = clock w + length (booleanDates (heap w) ds)"
  by (simp add: mapFormat_Posts_clock_card length_booleanDates)

lemma mapFormat_Posts_stamp:
  "r \<in> set ds \<Longrightarrow> typeofBoolean (getProp (heap w r) ''scoreExceeded75Date'') \<Longrightarrow>
   getProp (heap (snd (mapFormat (formatPosts env) ds w)) r) ''scoreExceeded75Date'' =
     JDate (now env (clock w + length (booleanDates (heap w) (takeWhile (\<lambda>d. d \<noteq> r) ds))))"
  by (simp add: mapFormat_Posts_stamp_card length_booleanDates)

lemma booleanDates_before:
  assumes "r \<in> set ds" "typeofBoolean (getProp (h r) ''scoreExceeded75Date'')"
  shows "length (booleanDates h (takeWhile (\<lambda>d. d \<noteq> r) ds)) < length (booleanDates h ds)"
proof -
  let ?A = "{x \<in> set (takeWhile (\<lambda>d. d \<noteq> r) ds). typeofBoolean (getProp (h x) ''scoreExceeded75Date'')}"
  let ?B = "{x \<in> set ds. typeofBoolean (getProp (h x) ''scoreExceeded75Date'')}"
  have "r \<notin> set (takeWhile (\<lambda>d. d \<noteq> r) ds)" by (auto dest: set_takeWhileD)
  then have "r \<notin> ?A" by simp
  moreover from assms have "r \<in> ?B" by simp
  moreover have "?A \<subseteq> ?B" by (auto dest: set_takeWhileD)
  ultimately have "?A \<subset> ?B" by auto
  moreover have "finite ?B" by simp
  ultimately have "card ?A < card ?B" by (rule psubset_card_mono [rotated])
  then show ?thesis by (simp add: length_booleanDates)
qed

lemma callback_clock:
  "clock (snd (callback env name t b w)) = clock (afterFormat env name b w)"
  by (simp add: callback_unfold sqlUnsafe_def split: sum.splits prod.splits option.splits)

lemma indexCalls_append: "indexCalls (xs @ ys) = indexCalls xs @ indexCalls ys"
  by (simp add: indexCalls_def)

lemma indexCalls_Console: "indexCalls (Console l m # evs) = indexCalls evs"
  by (simp add: indexCalls_def)

lemma indexCallsOf_other_phase: "phaseOf ev \<noteq> IndexesCreated \<Longrightarrow> indexCallsOf ev = []"
proof (cases ev)
  case (Console l m)
  then show ?thesis by simp
next
  case (Compile q)
  assume "phaseOf ev \<noteq> IndexesCreated"
  with Compile show ?thesis by (cases q) simp_all
next
  case (Unsafe q c r)
  assume "phaseOf ev \<noteq> IndexesCreated"
  with Unsafe show ?thesis by (cases q) simp_all
qed

lemma indexCalls_other_phase:
  "\<forall>ev\<in>set evs. phaseOf ev \<noteq> IndexesCreated \<Longrightarrow> indexCalls evs = []"
  by (simp add: indexCalls_def indexCallsOf_other_phase)

lemma forIndexQueries_calls:
  assumes "forIndexQueries env (map (\<lambda>index. CreateIndexQuery t index) is) w = (r, w')"
  shows "\<exists>evs. trace w' = trace w @ evs \<and>
     prefix (indexCalls evs)
       (concat (map (\<lambda>index. [Compiled (CreateIndexQuery t index),
                               Executed (CreateIndexQuery t index)]) is)) \<and>
     (r = Inr () \<longrightarrow> indexCalls evs =
        concat (map (\<lambda>index. [Compiled (CreateIndexQuery t index),
                                Executed (CreateIndexQuery t index)]) is))"
  using assms
proof (induction "is" arbitrary: w)
  case Nil
  then show ?case by (simp add: indexCalls_def)
next
  case (Cons i "is")
  let ?q = "CreateIndexQuery t i"
  let ?plan = "\<lambda>is. concat (map (\<lambda>index. [Compiled (CreateIndexQuery t index),
                               Executed (CreateIndexQuery t index)]) is)"
  show ?case
  proof (cases "compile env ?q")
    case (Inl e)
    with Cons.prems have "trace w' = trace w @ [Compile ?q]" "r = Inl e"
      by (auto simp: compileQuery_def)
    then show ?thesis by (auto simp: indexCalls_def)
  next
    case (Inr c)
    obtain res d where u: "unsafe env c (db w) = (res, d)" by (cases "unsafe env c (db w)")
    show ?thesis
    proof (cases res)
      case (Some e)
      with Inr u Cons.prems have "trace w' = trace w @ [Compile ?q, Unsafe ?q c (Some e)]" "r = Inl e"
        by (auto simp: compileQuery_def sqlUnsafe_def)
      then show ?thesis by (auto simp: indexCalls_def)
    next
      case None
      let ?w2 = "emit (Unsafe ?q c None) ((emit (Compile ?q) w)\<lparr>db := d\<rparr>)"
      let ?pre = "[Compile ?q, Unsafe ?q c None]"
      from None Inr u Cons.prems have f: "forIndexQueries env (map (\<lambda>index. CreateIndexQuery t index) is) ?w2 = (r, w')"
        by (simp add: compileQuery_def sqlUnsafe_def)
      from Cons.IH [OF f] obtain evs where
        tr: "trace w' = trace ?w2 @ evs" and pf: "prefix (indexCalls evs) (?plan is)"
        and eq: "r = Inr () \<longrightarrow> indexCalls evs = ?plan is"
        by auto
      have 1: "trace w' = trace w @ (?pre @ evs)" using tr by simp
      have c: "indexCalls (?pre @ evs) = [Compiled ?q, Executed ?q] @ indexCalls evs"
        by (simp add: indexCalls_def)
      have 2: "prefix (indexCalls (?pre @ evs)) (?plan (i # is))"
        unfolding c using pf by simp
      have 3: "r = Inr () \<longrightarrow> indexCalls (?pre @ evs) = ?plan (i # is)"
        unfolding c using eq by simp
      from 1 2 3 show ?thesis by blast
    qed
  qed
qed

lemma createIndexes_calls:
  assumes "createIndexes env t w = (r, w')"
  shows "\<exists>evs. trace w' = trace w @ evs \<and> (\<forall>ev\<in>set evs. phaseOf ev = IndexesCreated) \<and>
     prefix (indexCalls evs) (indexPlan t) \<and> (r = Inr () \<longrightarrow> indexCalls evs = indexPlan t)"
proof -
  let ?w2 = "if length (map (\<lambda>index. CreateIndexQuery t index) (getIndexes t)) = 0
     then console LevelWarn NoIndexesFound (console LevelLog CreatingIndexes w)
     else console LevelLog CreatingIndexes w"
  let ?pre = "Console LevelLog CreatingIndexes #
     (if getIndexes t = [] then [Console LevelWarn NoIndexesFound] else [])"
  from assms have f: "forIndexQueries env (map (\<lambda>index. CreateIndexQuery t index) (getIndexes t)) ?w2
      = (r, w')"
    by (simp add: createIndexes_def Let_def)
  from forIndexQueries_calls [OF f] obtain evs where
    tr: "trace w' = trace ?w2 @ evs" and pf: "prefix (indexCalls evs) (indexPlan t)"
    and eq: "r = Inr () \<longrightarrow> indexCalls evs = indexPlan t"
    unfolding indexPlan_def by blast
  from createIndexes_trace [OF assms] obtain evs' where
    tr': "trace w' = trace w @ evs'" and ph: "\<forall>ev\<in>set evs'. phaseOf ev = IndexesCreated"
    by blast
  have 1: "trace w' = trace w @ (?pre @ evs)" using tr by simp
  with tr' have e: "evs' = ?pre @ evs" by simp
  have c: "indexCalls (?pre @ evs) = indexCalls evs" by (simp add: indexCalls_def)
  from tr' ph pf eq show ?thesis unfolding e c [symmetric] by blast
qed

lemma indexCalls_lookup: "indexCalls (lookupEvents name) = []"
  by (simp add: indexCalls_def lookupEvents_def)

lemma indexCalls_schema: "indexCalls (schemaEvents c t) = []"
  by (simp add: indexCalls_def schemaEvents_def)

lemma indexCalls_finish: "indexCalls (finishEvents name w) = []"
  by (simp add: indexCalls_def finishEvents_def)

lemma mongoToSql_indexCalls:
  assumes run: "mongoToSql env name w = (r, w')" and col: "getCollection env name = Some c"
  shows "prefix (indexCalls (emitted w w')) (indexPlan (fromCollection env c)) \<and>
     (Console LevelLog CopyingData \<in> set (emitted w w') \<longrightarrow>
        indexCalls (emitted w w') = indexPlan (fromCollection env c))"
  using run col
proof (cases rule: mongoToSql_cases)
  case (TableFailed e)
  let ?w3 = "snd (buildSchema env c (afterLookup name w))"
  have pre: "trace ?w3 = trace w @ (lookupEvents name @ schemaEvents c (fromCollection env c))"
    by (simp add: buildSchema_frame afterLookup_frame lookupEvents_def)
  from createTable_trace [OF TableFailed(1)] obtain tb where
    tb: "trace w' = trace ?w3 @ tb" "\<forall>ev\<in>set tb. phaseOf ev = TableCreated"
    by auto
  from tb(2) have n: "indexCalls tb = []" by (intro indexCalls_other_phase) simp
  have em: "emitted w w' = lookupEvents name @ schemaEvents c (fromCollection env c) @ tb"
    by (rule emittedI) (simp add: tb pre)
  have "Console LevelLog CopyingData \<notin> set (emitted w w')"
    unfolding em using tb(2) by (auto simp: lookupEvents_def schemaEvents_def)
  moreover have "indexCalls (emitted w w') = []"
    unfolding em by (simp add: indexCalls_append indexCalls_lookup indexCalls_schema n)
  ultimately show ?thesis by simp
next
  case (IndexesFailed e w4)
  let ?w3 = "snd (buildSchema env c (afterLookup name w))"
  have pre: "trace ?w3 = trace w @ (lookupEvents name @ schemaEvents c (fromCollection env c))"
    by (simp add: buildSchema_frame afterLookup_frame lookupEvents_def)
  from createTable_trace [OF IndexesFailed(1)] obtain tb where
    tb: "trace w4 = trace ?w3 @ tb" "\<forall>ev\<in>set tb. phaseOf ev = TableCreated"
    by auto
  from tb(2) have n: "indexCalls tb = []" by (intro indexCalls_other_phase) simp
  from createIndexes_calls [OF IndexesFailed(2)] obtain ix where
    ix: "trace w' = trace w4 @ ix" "\<forall>ev\<in>set ix. phaseOf ev = IndexesCreated"
      "prefix (indexCalls ix) (indexPlan (fromCollection env c))"
    by auto
  have em: "emitted w w' = lookupEvents name @ schemaEvents c (fromCollection env c) @ tb @ ix"
    by (rule emittedI) (simp add: tb ix pre)
  have "Console LevelLog CopyingData \<notin> set (emitted w w')"
    unfolding em using tb(2) ix(2) by (auto simp: lookupEvents_def schemaEvents_def)
  moreover have "indexCalls (emitted w w') = indexCalls ix"
    unfolding em by (simp add: indexCalls_append indexCalls_lookup indexCalls_schema n)
  ultimately show ?thesis using ix(3) by simp
next
  case (CopyFailed e w4 w5)
  let ?w3 = "snd (buildSchema env c (afterLookup name w))"
  have pre: "trace ?w3 = trace w @ (lookupEvents name @ schemaEvents c (fromCollection env c))"
    by (simp add: buildSchema_frame afterLookup_frame lookupEvents_def)
  from createTable_trace [OF CopyFailed(1)] obtain tb where
    tb: "trace w4 = trace ?w3 @ tb" "\<forall>ev\<in>set tb. phaseOf ev = TableCreated"
    by auto
  from tb(2) have n: "indexCalls tb = []" by (intro indexCalls_other_phase) simp
  from createIndexes_calls [OF CopyFailed(2)] obtain ix where
    ix: "trace w5 = trace w4 @ ix" "indexCalls ix = indexPlan (fromCollection env c)"
    by auto
  from copyData_trace [OF CopyFailed(3)] obtain evs where
    cp: "trace w' = trace w5 @ (Console LevelLog CopyingData # evs)"
      "\<forall>ev\<in>set evs. phaseOf ev = Copying"
    by (elim exE conjE) (rule that)
  from cp(2) have m: "indexCalls evs = []"
    by (intro indexCalls_other_phase) simp
  have em: "emitted w w' = lookupEvents name @ schemaEvents c (fromCollection env c) @ tb @ ix @
      (Console LevelLog CopyingData # evs)"
    by (rule emittedI) (simp add: tb ix cp pre)
  have "indexCalls (emitted w w') = indexCalls ix"
    unfolding em by (simp add: indexCalls_append indexCalls_Console indexCalls_lookup indexCalls_schema n m)
  then show ?thesis using ix(2) by simp
next
  case (Finished w4 w5 w6)
  let ?w3 = "snd (buildSchema env c (afterLookup name w))"
  have pre: "trace ?w3 = trace w @ (lookupEvents name @ schemaEvents c (fromCollection env c))"
    by (simp add: buildSchema_frame afterLookup_frame lookupEvents_def)
  from createTable_trace [OF Finished(1)] obtain tb where
    tb: "trace w4 = trace ?w3 @ tb" "\<forall>ev\<in>set tb. phaseOf ev = TableCreated"
    by auto
  from tb(2) have n: "indexCalls tb = []" by (intro indexCalls_other_phase) simp
  from createIndexes_calls [OF Finished(2)] obtain ix where
    ix: "trace w5 = trace w4 @ ix" "indexCalls ix = indexPlan (fromCollection env c)"
    by auto
  from copyData_trace [OF Finished(3)] obtain evs where
    cp: "trace w6 = trace w5 @ (Console LevelLog CopyingData # evs)"
      "\<forall>ev\<in>set evs. phaseOf ev = Copying"
    by (elim exE conjE) (rule that)
  from cp(2) have m: "indexCalls evs = []"
    by (intro indexCalls_other_phase) simp
  have em: "emitted w w' = lookupEvents name @ schemaEvents c (fromCollection env c) @ tb @ ix @
      (Console LevelLog CopyingData # evs) @ finishEvents name w6"
    by (rule emittedI) (simp add: tb ix cp pre Finished(4) finish_frame)
  have "indexCalls (emitted w w') = indexCalls ix"
    unfolding em
    by (simp add: indexCalls_append indexCalls_Console indexCalls_lookup indexCalls_schema
        indexCalls_finish n m)
  then show ?thesis using ix(2) by simp
qed





section \<open>The claims of the specification\<close>

subsection \<open>C1: a failing index creation\<close>

text \<open>
  C1 as the specification states it (a failing index creation is logged and the run
  goes on to copy the data) does not hold: with a destination that refuses one
  \<^verbatim>\<open>CREATE INDEX\<close>, the run is rejected with the error of that statement and the
  line "...Copying data" is never printed.
\<close>

theorem index_failure_counterexample:
  "fst (mongoToSql indexRefusedEnv ''Users'' (exampleWorld 0)) = Inl (JsError ''could not create index'')
   \<and> Console LevelLog CopyingData \<notin>
       set (emitted (exampleWorld 0) (snd (mongoToSql indexRefusedEnv ''Users'' (exampleWorld 0))))"
  unfolding index_refused_run by code_simp

text \<open>
  C1, amended: the index-creation statements are compiled and executed one after the
  other in the order of \<^verbatim>\<open>table.getIndexes()\<close>, each index compiled and then executed
  before the next one is compiled, with nothing catching their errors. The calls of a
  run on the indexes are always an initial part of that sequence, and the whole of it
  when the run prints "...Copying data". When the \<^verbatim>\<open>compile()\<close> or the
  \<^verbatim>\<open>sql.unsafe\<close> of one index throws \<open>e\<close>, the run is rejected with \<open>e\<close>, that
  call is the last thing the run does (no later index is attempted), and neither the
  copying phase nor the final report is reached.
\<close>

theorem index_failure_aborts_run:
  assumes run: "mongoToSql env name w = (r, w')"
  shows "(\<forall>c. getCollection env name = Some c \<longrightarrow>
            prefix (indexCalls (emitted w w')) (indexPlan (fromCollection env c)) \<and>
            (Console LevelLog CopyingData \<in> set (emitted w w') \<longrightarrow>
               indexCalls (emitted w w') = indexPlan (fromCollection env c))) \<and>
         (\<forall>ev e. ev \<in> set (emitted w w') \<longrightarrow> phaseOf ev = IndexesCreated \<longrightarrow>
            eventError env ev = Some e \<longrightarrow>
            r = Inl e \<and> last (emitted w w') = ev \<and>
            (\<forall>ev'\<in>set (emitted w w'). phaseOf ev' \<noteq> Copying \<and> phaseOf ev' \<noteq> Done))"
proof (intro conjI allI impI)
  fix c assume "getCollection env name = Some c"
  from mongoToSql_indexCalls [OF run this]
  show "prefix (indexCalls (emitted w w')) (indexPlan (fromCollection env c))"
    and "Console LevelLog CopyingData \<in> set (emitted w w') \<Longrightarrow>
      indexCalls (emitted w w') = indexPlan (fromCollection env c)"
    by simp_all
next
  fix ev e
  assume ev: "ev \<in> set (emitted w w')" "phaseOf ev = IndexesCreated"
    and failed: "eventError env ev = Some e"
  have "r = Inl e \<and> last (emitted w w') = ev \<and>
     (\<forall>ev'\<in>set (emitted w w'). phaseOf ev' \<noteq> Copying \<and> phaseOf ev' \<noteq> Done)"
  proof (cases "getCollection env name")
    case None
    from ev show ?thesis
      unfolding mongoToSql_invalid_emitted [OF run None] by (auto simp: lookupEvents_def)
  next
    case (Some c)
    from mongoToSql_shape [OF run Some] obtain tb ix cp fin where
      sh: "runShape env name c w r w' tb ix cp fin" by blast
    from runShape_segment(3) [OF sh ev] have m: "ev \<in> set ix" .
    with sh failed have 1: "r = Inl e" "last ix = ev" "cp = []" "fin = []"
      by (auto simp: runShape_def)
    from m have ne: "ix \<noteq> []" by auto
    have 2: "last (emitted w w') = ev"
      unfolding runShape_emitted [OF sh] using 1 ne by simp
    have "\<forall>ev'\<in>set (emitted w w'). phaseOf ev' \<noteq> Copying \<and> phaseOf ev' \<noteq> Done"
    proof (intro ballI conjI notI)
      fix ev' assume ev': "ev' \<in> set (emitted w w')"
      { assume "phaseOf ev' = Copying"
        from runShape_segment(4) [OF sh ev' this] 1 show False by simp }
      { assume "phaseOf ev' = Done"
        from runShape_segment(5) [OF sh ev' this] 1 show False by simp }
    qed
    with 1 2 show ?thesis by simp
  qed
  then show "r = Inl e" and "last (emitted w w') = ev"
    and "\<forall>ev'\<in>set (emitted w w'). phaseOf ev' \<noteq> Copying \<and> phaseOf ev' \<noteq> Done"
    by simp_all
qed

text \<open>
  In the run on \<open>Users\<close> with three indexes and a destination that refuses the second,
  the first index is compiled and executed, the second is compiled and its execution
  throws, and the third is never attempted: four of the six calls of the plan are made.
  The run on \<open>Users\<close> of the example installation reaches the copying phase, having made
  every call of its plan.
\<close>

theorem index_failure_aborts_run_witness:
  "getCollection indexRefusedEnv ''Users'' = Some exampleUsers
   \<and> Unsafe (CreateIndexQuery (indexedTable ''Users'') (getIndexes (indexedTable ''Users'') ! 1))
          (CreateIndexQuery (indexedTable ''Users'') (getIndexes (indexedTable ''Users'') ! 1))
          (Some (JsError ''could not create index''))
     \<in> set (emitted (exampleWorld 0) (snd (mongoToSql indexRefusedEnv ''Users'' (exampleWorld 0))))
   \<and> fst (mongoToSql indexRefusedEnv ''Users'' (exampleWorld 0)) = Inl (JsError ''could not create index'')
   \<and> last (emitted (exampleWorld 0) (snd (mongoToSql indexRefusedEnv ''Users'' (exampleWorld 0)))) =
       Unsafe (CreateIndexQuery (indexedTable ''Users'') (getIndexes (indexedTable ''Users'') ! 1))
          (CreateIndexQuery (indexedTable ''Users'') (getIndexes (indexedTable ''Users'') ! 1))
          (Some (JsError ''could not create index''))
   \<and> Copying \<notin> set (map phaseOf
         (emitted (exampleWorld 0) (snd (mongoToSql indexRefusedEnv ''Users'' (exampleWorld 0)))))
   \<and> prefix (indexCalls (emitted (exampleWorld 0)
                (snd (mongoToSql indexRefusedEnv ''Users'' (exampleWorld 0)))))
        (indexPlan (fromCollection indexRefusedEnv exampleUsers))
   \<and> indexCalls (emitted (exampleWorld 0) (snd (mongoToSql indexRefusedEnv ''Users'' (exampleWorld 0))))
       = take 4 (indexPlan (indexedTable ''Users''))
   \<and> length (indexPlan (indexedTable ''Users'')) = 6
   \<and> getCollection exampleEnv ''Users'' = Some exampleUsers
   \<and> Console LevelLog CopyingData
       \<in> set (emitted (exampleWorld 0) (snd (mongoToSql exampleEnv ''Users'' (exampleWorld 0))))
   \<and> indexCalls (emitted (exampleWorld 0) (snd (mongoToSql exampleEnv ''Users'' (exampleWorld 0))))
       = indexPlan (fromCollection exampleEnv exampleUsers)"
proof -
  let ?q = "CreateIndexQuery (indexedTable ''Users'') (getIndexes (indexedTable ''Users'') ! 1)"
  let ?ev = "Unsafe ?q ?q (Some (JsError ''could not create index''))"
  let ?em = "emitted (exampleWorld 0) (snd (mongoToSql indexRefusedEnv ''Users'' (exampleWorld 0)))"
  note t = index_failure_aborts_run [OF run_pair, of indexRefusedEnv "''Users''" "exampleWorld 0"]
  have m: "?ev \<in> set ?em"
    unfolding index_refused_run by code_simp
  have p: "phaseOf ?ev = IndexesCreated" by simp
  have e: "eventError indexRefusedEnv ?ev = Some (JsError ''could not create index'')" by simp
  from t m p e have 1: "fst (mongoToSql indexRefusedEnv ''Users'' (exampleWorld 0)) =
      Inl (JsError ''could not create index'')" "last ?em = ?ev"
    "\<forall>ev'\<in>set ?em. phaseOf ev' \<noteq> Copying \<and> phaseOf ev' \<noteq> Done"
    by blast+
  from 1(3) have 2: "Copying \<notin> set (map phaseOf ?em)" by auto
  from t example_collections(4)
  have 3: "prefix (indexCalls ?em) (indexPlan (fromCollection indexRefusedEnv exampleUsers))"
    by blast
  have 4: "indexCalls ?em = take 4 (indexPlan (indexedTable ''Users''))"
    unfolding index_refused_run by code_simp
  have 5: "length (indexPlan (indexedTable ''Users'')) = 6" by code_simp
  note u = index_failure_aborts_run [OF run_pair, of exampleEnv "''Users''" "exampleWorld 0"]
  have 6: "Console LevelLog CopyingData
      \<in> set (emitted (exampleWorld 0) (snd (mongoToSql exampleEnv ''Users'' (exampleWorld 0))))"
    unfolding users_run by code_simp
  from u example_collections(2) 6
  have 7: "indexCalls (emitted (exampleWorld 0) (snd (mongoToSql exampleEnv ''Users'' (exampleWorld 0))))
       = indexPlan (fromCollection exampleEnv exampleUsers)"
    by blast
  show ?thesis
    by (intro conjI example_collections(4) m 1(1) 1(2) 2 3 4 5 example_collections(2) 6 7)
qed

subsection \<open>C2: a derived table without fields\<close>




subsection \<open>C3: the formatter of Posts\<close>

text \<open>
  C3 as the specification states it (the formatter changes \<^verbatim>\<open>scoreExceeded75Date\<close>
  only where it equals \<^verbatim>\<open>true\<close>) does not hold: the test is
  \<^verbatim>\<open>typeof ... === "boolean"\<close>, so \<^verbatim>\<open>false\<close> is replaced by a date as well.
\<close>

theorem posts_formatter_counterexample:
  "getProp (heap (exampleWorld 0) 1) ''scoreExceeded75Date'' = JBool False \<and>
   getProp (heap (snd (formatPosts exampleEnv 1 (exampleWorld 0))) 1) ''scoreExceeded75Date'' =
     JDate 1700000000000"
  by code_simp

text \<open>
  C3, amended: for the collection Posts, the documents handed to \<^verbatim>\<open>InsertQuery\<close> for
  a batch are the documents of the batch after formatting. Every document whose
  \<^verbatim>\<open>scoreExceeded75Date\<close> was a boolean (\<^verbatim>\<open>true\<close> or \<^verbatim>\<open>false\<close>) holds a
  \<^verbatim>\<open>Date\<close> of the clock reading taken when that document is formatted: the clock is
  read once for each object of the batch with a boolean \<^verbatim>\<open>scoreExceeded75Date\<close>, in
  the order of the batch, so the document holds the reading whose number is the number
  of readings before the batch plus the number of such objects, each counted once,
  before it in the batch, a reading taken during the batch. Every document where it was not a boolean holds
  the value it had. The batch reads the clock as many times as it has such objects.
\<close>

theorem posts_formatter_coerces_booleans:
  assumes cb: "callback env ''Posts'' t docs w = (r, w')" and i: "i < length docs"
  shows "\<exists>ds. insertedDocs (emitted w w') = [ds] \<and> length ds = length docs \<and>
     (typeofBoolean (getProp (heap w (docs ! i)) ''scoreExceeded75Date'') \<longrightarrow>
        getProp (ds ! i) ''scoreExceeded75Date'' =
          JDate (now env (clock w +
            length (booleanDates (heap w) (takeWhile (\<lambda>d. d \<noteq> docs ! i) docs)))) \<and>
        clock w + length (booleanDates (heap w) (takeWhile (\<lambda>d. d \<noteq> docs ! i) docs)) < clock w') \<and>
     (\<not> typeofBoolean (getProp (heap w (docs ! i)) ''scoreExceeded75Date'') \<longrightarrow>
        getProp (ds ! i) ''scoreExceeded75Date'' =
        getProp (heap w (docs ! i)) ''scoreExceeded75Date'') \<and>
     clock w' = clock w + length (booleanDates (heap w) docs)"
proof -
  let ?w2 = "(console LevelLog (MigratingDocuments (length docs) (count w)) w)
          \<lparr>count := count w + batchSize\<rparr>"
  let ?w3 = "afterFormat env ''Posts'' docs w"
  let ?ds = "map (heap ?w3) docs"
  let ?k = "clock w + length (booleanDates (heap w) (takeWhile (\<lambda>d. d \<noteq> docs ! i) docs))"
  have w3: "?w3 = snd (mapFormat (formatPosts env) docs ?w2)" by (rule afterFormat_Posts)
  have h2: "heap ?w2 = heap w" "clock ?w2 = clock w" by simp_all
  from cb have "trace w' = trace w @ callbackEvents env ''Posts'' t docs w"
    using callback_trace [of env "''Posts''" t docs w] by simp
  then have "emitted w w' = callbackEvents env ''Posts'' t docs w" by (rule emittedI)
  then have 1: "insertedDocs (emitted w w') = [?ds]" by (simp add: callbackEvents_inserted)
  from i have d: "docs ! i \<in> set docs" "?ds ! i = heap ?w3 (docs ! i)" by simp_all
  have 4: "clock w' = clock w + length (booleanDates (heap w) docs)"
    using cb callback_clock [of env "''Posts''" t docs w] mapFormat_Posts_clock_exact [of env docs ?w2]
    by (simp add: w3)
  have 2: "typeofBoolean (getProp (heap w (docs ! i)) ''scoreExceeded75Date'') \<longrightarrow>
        getProp (?ds ! i) ''scoreExceeded75Date'' = JDate (now env ?k) \<and> ?k < clock w'"
  proof
    assume b: "typeofBoolean (getProp (heap w (docs ! i)) ''scoreExceeded75Date'')"
    then have "typeofBoolean (getProp (heap ?w2 (docs ! i)) ''scoreExceeded75Date'')" by simp
    from mapFormat_Posts_stamp [OF d(1) this, of env]
    have "getProp (heap ?w3 (docs ! i)) ''scoreExceeded75Date'' = JDate (now env ?k)"
      unfolding w3 by simp
    with d(2) have "getProp (?ds ! i) ''scoreExceeded75Date'' = JDate (now env ?k)" by simp
    moreover have "?k < clock w'"
      unfolding 4 using booleanDates_before [of "docs ! i" docs "heap w", OF d(1) b] by simp
    ultimately show "getProp (?ds ! i) ''scoreExceeded75Date'' = JDate (now env ?k) \<and> ?k < clock w'" ..
  qed
  have 3: "\<not> typeofBoolean (getProp (heap w (docs ! i)) ''scoreExceeded75Date'') \<longrightarrow>
        getProp (?ds ! i) ''scoreExceeded75Date'' =
        getProp (heap w (docs ! i)) ''scoreExceeded75Date''"
  proof
    assume "\<not> typeofBoolean (getProp (heap w (docs ! i)) ''scoreExceeded75Date'')"
    then have "\<not> typeofBoolean (getProp (heap ?w2 (docs ! i)) ''scoreExceeded75Date'')" by simp
    from mapFormat_Posts_keeps [OF this, of env docs] d(2)
    show "getProp (?ds ! i) ''scoreExceeded75Date'' =
        getProp (heap w (docs ! i)) ''scoreExceeded75Date''"
      unfolding w3 by simp
  qed
  from 1 2 3 4 show ?thesis by (intro exI [of _ ?ds]) simp
qed

text \<open>
  The hypotheses hold for the batch of the two example posts: the first post, whose
  \<^verbatim>\<open>scoreExceeded75Date\<close> is \<^verbatim>\<open>true\<close>, holds the first reading of the clock, the
  second, where it is \<^verbatim>\<open>false\<close>, the second reading, and the clock has been read twice.
\<close>

theorem posts_formatter_coerces_booleans_witness:
  "(1::nat) < length [0::nat, 1] \<and>
   typeofBoolean (getProp (heap (exampleWorld 0) ([0, 1] ! 1)) ''scoreExceeded75Date'') \<and>
   (\<exists>ds. insertedDocs (emitted (exampleWorld 0)
             (snd (callback exampleEnv ''Posts'' (exampleTable ''Posts'') [0, 1] (exampleWorld 0))))
          = [ds] \<and>
      getProp (ds ! 0) ''scoreExceeded75Date'' = JDate (now exampleEnv 0) \<and>
      getProp (ds ! 1) ''scoreExceeded75Date'' = JDate (now exampleEnv 1)) \<and>
   clock (snd (callback exampleEnv ''Posts'' (exampleTable ''Posts'') [0, 1] (exampleWorld 0))) = 2"
proof -
  let ?w' = "snd (callback exampleEnv ''Posts'' (exampleTable ''Posts'') [0, 1] (exampleWorld 0))"
  have cb: "callback exampleEnv ''Posts'' (exampleTable ''Posts'') [0, 1] (exampleWorld 0) =
    (fst (callback exampleEnv ''Posts'' (exampleTable ''Posts'') [0, 1] (exampleWorld 0)), ?w')"
    by simp
  have i: "(1::nat) < length [0::nat, 1]" "(0::nat) < length [0::nat, 1]" by simp_all
  have b: "typeofBoolean (getProp (heap (exampleWorld 0) ([0, 1] ! 1)) ''scoreExceeded75Date'')"
    "typeofBoolean (getProp (heap (exampleWorld 0) ([0, 1] ! 0)) ''scoreExceeded75Date'')"
    by code_simp+
  have k: "clock (exampleWorld 0) +
      length (booleanDates (heap (exampleWorld 0)) (takeWhile (\<lambda>d. d \<noteq> [0, 1] ! 1) [0, 1])) = 1"
    "clock (exampleWorld 0) +
      length (booleanDates (heap (exampleWorld 0)) (takeWhile (\<lambda>d. d \<noteq> [0, 1] ! 0) [0, 1])) = 0"
    "clock (exampleWorld 0) + length (booleanDates (heap (exampleWorld 0)) [0, 1]) = 2"
    by code_simp+
  from posts_formatter_coerces_booleans [OF cb i(1)] posts_formatter_coerces_booleans [OF cb i(2)]
    b i(1)
  show ?thesis unfolding k by auto
qed

subsection \<open>C4: what a run does to the documents it reads\<close>

text \<open>
  C4 as the specification states it (the document objects are unchanged after
  formatter application) does not hold: \<^verbatim>\<open>formatters.Posts\<close> assigns to the document
  it is given, and after the run on \<open>Posts\<close> the first post is not what the source
  produced.
\<close>

theorem run_mutates_documents_counterexample:
  "heap (snd (mongoToSql exampleEnv ''Posts'' (exampleWorld 0))) 0 \<noteq> heap (exampleWorld 0) 0"
  unfolding posts_run by code_simp

text \<open>
  C4, amended: a run on a collection without a registered formatter leaves every
  document object as it was. In every run, whatever the collection, and for every
  object: every field other than \<^verbatim>\<open>scoreExceeded75Date\<close> and \<^verbatim>\<open>title\<close> is unchanged;
  \<^verbatim>\<open>scoreExceeded75Date\<close> is unchanged unless it was a boolean, and where it has changed
  it is a \<^verbatim>\<open>Date\<close>; \<^verbatim>\<open>title\<close> is unchanged unless it was falsy, and where it has
  changed it is the empty string; an object whose \<^verbatim>\<open>scoreExceeded75Date\<close> was not a
  boolean and whose \<^verbatim>\<open>title\<close> was not falsy is as it was; an object that is not a
  document of the collection is as it was. After a run on \<open>Posts\<close> that is not rejected,
  every document of the collection that had a boolean \<^verbatim>\<open>scoreExceeded75Date\<close> holds a
  \<^verbatim>\<open>Date\<close> there, and every one that had a falsy \<^verbatim>\<open>title\<close> holds the empty string.
  The formatter returns the object it was given.
\<close>

theorem run_frame_documents:
  assumes run: "mongoToSql env name w = (r, w')"
  shows "(formatters env name = None \<longrightarrow> heap w' = heap w) \<and>
     (\<forall>x k. k \<noteq> ''scoreExceeded75Date'' \<longrightarrow> k \<noteq> ''title'' \<longrightarrow>
        getProp (heap w' x) k = getProp (heap w x) k) \<and>
     (\<forall>x. \<not> typeofBoolean (getProp (heap w x) ''scoreExceeded75Date'') \<longrightarrow>
        getProp (heap w' x) ''scoreExceeded75Date'' = getProp (heap w x) ''scoreExceeded75Date'') \<and>
     (\<forall>x. getProp (heap w' x) ''scoreExceeded75Date'' \<noteq> getProp (heap w x) ''scoreExceeded75Date'' \<longrightarrow>
        (\<exists>t. getProp (heap w' x) ''scoreExceeded75Date'' = JDate t)) \<and>
     (\<forall>x. \<not> falsy (getProp (heap w x) ''title'') \<longrightarrow>
        getProp (heap w' x) ''title'' = getProp (heap w x) ''title'') \<and>
     (\<forall>x. getProp (heap w' x) ''title'' \<noteq> getProp (heap w x) ''title'' \<longrightarrow>
        getProp (heap w' x) ''title'' = JStr '''') \<and>
     (\<forall>x. \<not> typeofBoolean (getProp (heap w x) ''scoreExceeded75Date'') \<longrightarrow>
        \<not> falsy (getProp (heap w x) ''title'') \<longrightarrow> heap w' x = heap w x) \<and>
     (\<forall>c x. getCollection env name = Some c \<longrightarrow> x \<notin> set (documents c) \<longrightarrow>
        heap w' x = heap w x) \<and>
     (\<forall>c x. getCollection env name = Some c \<longrightarrow> name = ''Posts'' \<longrightarrow> r = Inr () \<longrightarrow>
        x \<in> set (documents c) \<longrightarrow>
        (typeofBoolean (getProp (heap w x) ''scoreExceeded75Date'') \<longrightarrow>
           (\<exists>t. getProp (heap w' x) ''scoreExceeded75Date'' = JDate t)) \<and>
        (falsy (getProp (heap w x) ''title'') \<longrightarrow> getProp (heap w' x) ''title'' = JStr '''')) \<and>
     (\<forall>document w0. fst (formatData env name document w0) = document)"
proof -
  note rp = mongoToSql_repaired(1) [OF run, unfolded repaired_def, rule_format]
  have 1: "formatters env name = None \<longrightarrow> heap w' = heap w"
    using mongoToSql_heap [OF run] by simp
  have 2: "\<forall>x k. k \<noteq> ''scoreExceeded75Date'' \<longrightarrow> k \<noteq> ''title'' \<longrightarrow>
        getProp (heap w' x) k = getProp (heap w x) k"
    using rp by simp
  have 3: "\<forall>x. \<not> typeofBoolean (getProp (heap w x) ''scoreExceeded75Date'') \<longrightarrow>
        getProp (heap w' x) ''scoreExceeded75Date'' = getProp (heap w x) ''scoreExceeded75Date''"
    using rp by simp
  have 4: "\<forall>x. getProp (heap w' x) ''scoreExceeded75Date'' \<noteq> getProp (heap w x) ''scoreExceeded75Date'' \<longrightarrow>
        (\<exists>t. getProp (heap w' x) ''scoreExceeded75Date'' = JDate t)"
    using rp by simp
  have 5: "\<forall>x. \<not> falsy (getProp (heap w x) ''title'') \<longrightarrow>
        getProp (heap w' x) ''title'' = getProp (heap w x) ''title''"
    using rp by simp
  have 6: "\<forall>x. getProp (heap w' x) ''title'' \<noteq> getProp (heap w x) ''title'' \<longrightarrow>
        getProp (heap w' x) ''title'' = JStr ''''"
    using rp by simp
  have 7: "\<forall>x. \<not> typeofBoolean (getProp (heap w x) ''scoreExceeded75Date'') \<longrightarrow>
        \<not> falsy (getProp (heap w x) ''title'') \<longrightarrow> heap w' x = heap w x"
    using rp by simp
  have 8: "\<forall>c x. getCollection env name = Some c \<longrightarrow> x \<notin> set (documents c) \<longrightarrow>
        heap w' x = heap w x"
    using mongoToSql_repaired(3) [OF run] by simp
  have 9: "\<forall>c x. getCollection env name = Some c \<longrightarrow> name = ''Posts'' \<longrightarrow> r = Inr () \<longrightarrow>
        x \<in> set (documents c) \<longrightarrow>
        (typeofBoolean (getProp (heap w x) ''scoreExceeded75Date'') \<longrightarrow>
           (\<exists>t. getProp (heap w' x) ''scoreExceeded75Date'' = JDate t)) \<and>
        (falsy (getProp (heap w x) ''title'') \<longrightarrow> getProp (heap w' x) ''title'' = JStr '''')"
  proof (intro allI impI)
    fix c x
    assume "getCollection env name = Some c" "name = ''Posts''" "r = Inr ()" "x \<in> set (documents c)"
    then have "clean (heap w' x)" by (rule mongoToSql_repaired(4) [OF run])
    then have c: "\<not> typeofBoolean (getProp (heap w' x) ''scoreExceeded75Date'')"
      "falsy (getProp (heap w' x) ''title'') \<longrightarrow> getProp (heap w' x) ''title'' = JStr ''''"
      by (simp_all add: clean_def)
    have a: "typeofBoolean (getProp (heap w x) ''scoreExceeded75Date'') \<longrightarrow>
           (\<exists>t. getProp (heap w' x) ''scoreExceeded75Date'' = JDate t)"
    proof
      assume "typeofBoolean (getProp (heap w x) ''scoreExceeded75Date'')"
      with c(1) have "getProp (heap w' x) ''scoreExceeded75Date'' \<noteq>
          getProp (heap w x) ''scoreExceeded75Date''" by auto
      with 4 show "\<exists>t. getProp (heap w' x) ''scoreExceeded75Date'' = JDate t" by simp
    qed
    have b: "falsy (getProp (heap w x) ''title'') \<longrightarrow> getProp (heap w' x) ''title'' = JStr ''''"
    proof
      assume f: "falsy (getProp (heap w x) ''title'')"
      show "getProp (heap w' x) ''title'' = JStr ''''"
      proof (cases "getProp (heap w' x) ''title'' = getProp (heap w x) ''title''")
        case True
        with f c(2) show ?thesis by simp
      next
        case False
        with 6 show ?thesis by simp
      qed
    qed
    from a b show "(typeofBoolean (getProp (heap w x) ''scoreExceeded75Date'') \<longrightarrow>
           (\<exists>t. getProp (heap w' x) ''scoreExceeded75Date'' = JDate t)) \<and>
        (falsy (getProp (heap w x) ''title'') \<longrightarrow> getProp (heap w' x) ''title'' = JStr '''')" ..
  qed
  have 10: "\<forall>document w0. fst (formatData env name document w0) = document"
    by (simp add: formatData_fst)
  show ?thesis by (intro conjI 1 2 3 4 5 6 7 8 9 10)
qed

text \<open>
  The run on \<open>Users\<close>, which has no formatter, leaves the store as it was. The run on
  \<open>Posts\<close> is not rejected: the first post, with a boolean \<^verbatim>\<open>scoreExceeded75Date\<close> and
  a title, holds a date and its title; the second, without a title, holds the empty
  string and its \<^verbatim>\<open>_id\<close>; the user, not a document of \<open>Posts\<close>, is as it was.
  The first post then needs no repair, and a second run on \<open>Posts\<close> leaves it as the
  first run left it.
\<close>

theorem run_frame_documents_witness:
  "formatters exampleEnv ''Users'' = None \<and>
   heap (snd (mongoToSql exampleEnv ''Users'' (exampleWorld 0))) = heap (exampleWorld 0) \<and>
   getCollection exampleEnv ''Posts'' = Some examplePosts \<and>
   fst (mongoToSql exampleEnv ''Posts'' (exampleWorld 0)) = Inr () \<and>
   0 \<in> set (documents examplePosts) \<and>
   typeofBoolean (getProp (heap (exampleWorld 0) 0) ''scoreExceeded75Date'') \<and>
   (\<exists>t. getProp (heap (snd (mongoToSql exampleEnv ''Posts'' (exampleWorld 0))) 0)
           ''scoreExceeded75Date'' = JDate t) \<and>
   \<not> falsy (getProp (heap (exampleWorld 0) 0) ''title'') \<and>
   getProp (heap (snd (mongoToSql exampleEnv ''Posts'' (exampleWorld 0))) 0) ''title'' =
     getProp (heap (exampleWorld 0) 0) ''title'' \<and>
   1 \<in> set (documents examplePosts) \<and>
   falsy (getProp (heap (exampleWorld 0) 1) ''title'') \<and>
   getProp (heap (snd (mongoToSql exampleEnv ''Posts'' (exampleWorld 0))) 1) ''title'' = JStr '''' \<and>
   getProp (heap (snd (mongoToSql exampleEnv ''Posts'' (exampleWorld 0))) 1) ''_id'' =
     getProp (heap (exampleWorld 0) 1) ''_id'' \<and>
   2 \<notin> set (documents examplePosts) \<and>
   heap (snd (mongoToSql exampleEnv ''Posts'' (exampleWorld 0))) 2 = heap (exampleWorld 0) 2 \<and>
   \<not> typeofBoolean (getProp (heap (snd (mongoToSql exampleEnv ''Posts'' (exampleWorld 0))) 0)
       ''scoreExceeded75Date'') \<and>
   \<not> falsy (getProp (heap (snd (mongoToSql exampleEnv ''Posts'' (exampleWorld 0))) 0) ''title'') \<and>
   heap (snd (mongoToSql exampleEnv ''Posts'' (snd (mongoToSql exampleEnv ''Posts'' (exampleWorld 0))))) 0 =
     heap (snd (mongoToSql exampleEnv ''Posts'' (exampleWorld 0))) 0"
proof -
  note users = run_frame_documents [OF run_pair, of exampleEnv "''Users''" "exampleWorld 0"]
  note posts = run_frame_documents [OF run_pair, of exampleEnv "''Posts''" "exampleWorld 0"]
  have r: "fst (mongoToSql exampleEnv ''Posts'' (exampleWorld 0)) = Inr ()"
    by (simp add: posts_run)
  have d: "0 \<in> set (documents examplePosts)" "1 \<in> set (documents examplePosts)"
    "2 \<notin> set (documents examplePosts)"
    by (simp_all add: examplePosts_def)
  have b: "typeofBoolean (getProp (heap (exampleWorld 0) 0) ''scoreExceeded75Date'')"
    by code_simp
  have t0: "\<not> falsy (getProp (heap (exampleWorld 0) 0) ''title'')" by code_simp
  have t1: "falsy (getProp (heap (exampleWorld 0) 1) ''title'')" by code_simp
  from users example_users_unregistered
  have 1: "heap (snd (mongoToSql exampleEnv ''Users'' (exampleWorld 0))) = heap (exampleWorld 0)"
    by simp
  from posts example_collections(1) r d b
  have 2: "\<exists>t. getProp (heap (snd (mongoToSql exampleEnv ''Posts'' (exampleWorld 0))) 0)
           ''scoreExceeded75Date'' = JDate t"
    by blast
  from posts t0
  have 3: "getProp (heap (snd (mongoToSql exampleEnv ''Posts'' (exampleWorld 0))) 0) ''title'' =
     getProp (heap (exampleWorld 0) 0) ''title''"
    by blast
  from posts example_collections(1) r d t1
  have 4: "getProp (heap (snd (mongoToSql exampleEnv ''Posts'' (exampleWorld 0))) 1) ''title'' = JStr ''''"
    by blast
  from posts
  have 5: "getProp (heap (snd (mongoToSql exampleEnv ''Posts'' (exampleWorld 0))) 1) ''_id'' =
     getProp (heap (exampleWorld 0) 1) ''_id''"
    by simp
  from posts example_collections(1) d
  have 6: "heap (snd (mongoToSql exampleEnv ''Posts'' (exampleWorld 0))) 2 = heap (exampleWorld 0) 2"
    by blast
  note again = run_frame_documents [OF run_pair, of exampleEnv "''Posts''"
      "snd (mongoToSql exampleEnv ''Posts'' (exampleWorld 0))"]
  have b': "\<not> typeofBoolean (getProp (heap (snd (mongoToSql exampleEnv ''Posts'' (exampleWorld 0))) 0)
       ''scoreExceeded75Date'')"
    unfolding posts_run by code_simp
  have t': "\<not> falsy (getProp (heap (snd (mongoToSql exampleEnv ''Posts'' (exampleWorld 0))) 0) ''title'')"
    unfolding posts_run by code_simp
  from again b' t'
  have 7: "heap (snd (mongoToSql exampleEnv ''Posts'' (snd (mongoToSql exampleEnv ''Posts'' (exampleWorld 0))))) 0 =
     heap (snd (mongoToSql exampleEnv ''Posts'' (exampleWorld 0))) 0"
    by blast
  show ?thesis
    by (intro conjI example_users_unregistered 1 example_collections(1) r d b 2 t0 3 t1 4 5 6 b' t' 7)
qed

subsection \<open>C5: a failing batch\<close>

text \<open>
  C5: in a run that reaches the copying phase, on a collection whose documents have
  distinct \<^verbatim>\<open>_id\<close>s, the list \<^verbatim>\<open>errorIds\<close> is at the end the \<^verbatim>\<open>_id\<close>s of the
  documents of exactly those INSERT statements whose execution threw, batch after
  batch; a throwing \<^verbatim>\<open>sql.unsafe\<close> never rejects the run (only a throwing
  \<^verbatim>\<open>compile()\<close> does); a run that is not rejected has sent every document of the
  collection to the destination; and no document of a statement that succeeded is in
  \<^verbatim>\<open>errorIds\<close>.
\<close>

theorem batch_failures_recorded:
  assumes run: "mongoToSql env name w = (r, w')" and col: "getCollection env name = Some c"
    and copying: "Console LevelLog CopyingData \<in> set (emitted w w')"
    and unique: "distinct (ids (map (heap w) (documents c)))"
  shows "errorIds w' = failedIds (emitted w w') \<and>
     (\<forall>e. r = Inl e \<longrightarrow>
        (\<exists>ds. compile env (InsertQuery (fromCollection env c) ds ConflictIgnore) = Inl e)) \<and>
     (r = Inr () \<longrightarrow> attemptedIds (emitted w w') = ids (map (heap w) (documents c))) \<and>
     set (succeededIds (emitted w w')) \<inter> set (errorIds w') = {}"
proof -
  from mongoToSql_shape [OF run col] obtain tb ix cp fin where
    sh: "runShape env name c w r w' tb ix cp fin" by blast
  have "phaseOf (Console LevelLog CopyingData :: 'a event) = Copying" by simp
  from runShape_segment(4) [OF sh copying this] have ne: "cp \<noteq> []" by auto
  with sh have 1: "errorIds w' = failedIds cp"
    and 2: "\<forall>e. r = Inl e \<longrightarrow>
        (\<exists>ds. compile env (InsertQuery (fromCollection env c) ds ConflictIgnore) = Inl e)"
    and 3: "r = Inr () \<longrightarrow> attemptedIds cp = ids (map (heap w) (documents c))"
    by (simp_all add: runShape_def)
  from sh have "prefix (attemptedIds cp) (ids (map (heap w) (documents c)))"
    by (simp add: runShape_def)
  from this unique have "distinct (attemptedIds cp)" by (rule prefix_distinct)
  then have 4: "set (succeededIds cp) \<inter> set (failedIds cp) = {}" by (rule ids_disjoint)
  from 1 2 3 4 show ?thesis by (simp add: runShape_ids [OF sh])
qed

text \<open>
  The hypotheses hold in the run on \<open>Posts\<close> with one transient failure to come: the
  only batch fails, the run completes, and both posts are reported.
\<close>

theorem batch_failures_recorded_witness:
  "getCollection exampleEnv ''Posts'' = Some examplePosts \<and>
   Console LevelLog CopyingData
     \<in> set (emitted flakyWorld (snd (mongoToSql exampleEnv ''Posts'' flakyWorld))) \<and>
   distinct (ids (map (heap flakyWorld) (documents examplePosts))) \<and>
   fst (mongoToSql exampleEnv ''Posts'' flakyWorld) = Inr () \<and>
   errorIds (snd (mongoToSql exampleEnv ''Posts'' flakyWorld)) = [JStr ''p1'', JStr ''p2''] \<and>
   attemptedIds (emitted flakyWorld (snd (mongoToSql exampleEnv ''Posts'' flakyWorld))) =
     [JStr ''p1'', JStr ''p2'']"
proof -
  let ?w' = "snd (mongoToSql exampleEnv ''Posts'' flakyWorld)"
  have c: "Console LevelLog CopyingData \<in> set (emitted flakyWorld ?w')"
    unfolding posts_run_flaky by code_simp
  have d: "distinct (ids (map (heap flakyWorld) (documents examplePosts)))" by code_simp
  have f: "failedIds (emitted flakyWorld ?w') = [JStr ''p1'', JStr ''p2'']"
    unfolding posts_run_flaky by code_simp
  have r: "fst (mongoToSql exampleEnv ''Posts'' flakyWorld) = Inr ()"
    by (simp add: posts_run_flaky)
  have i: "ids (map (heap flakyWorld) (documents examplePosts)) = [JStr ''p1'', JStr ''p2'']"
    by code_simp
  from batch_failures_recorded [OF run_pair example_collections(1) c d] f r i
    example_collections(1) c d
  show ?thesis by simp
qed

subsection \<open>C6: the batch size and the parameter limit\<close>

text \<open>
  C6 as the specification states it (for every table, \<open>batchSize \<times> fieldCount\<close> is at
  most 65534) does not hold: the batch size is the constant 400, and a table of 164
  fields gives 65600.
\<close>

theorem batch_size_counterexample: "\<not> batchSize * fieldCount wideTable \<le> maxParameters"
  by (simp add: batchSize_def fieldCount_def wideTable_def maxParameters_def)

text \<open>
  C6, amended: the batch size is 400 for every table. Every \<^verbatim>\<open>InsertQuery\<close> of a run
  is for the table derived from the collection and holds at most 400 documents;
  \<open>batchSize \<times> fieldCount\<close> is within the limit of 65534 exactly for the tables of at
  most 163 fields, and for those no batch exceeds the limit.
\<close>

theorem batch_size_bound:
  assumes run: "mongoToSql env name w = (r, w')" and col: "getCollection env name = Some c"
    and ev: "ev \<in> set (emitted w w')" and q: "InsertQuery t ds s \<in> set (queryOf ev)"
  shows "t = fromCollection env c \<and> length ds \<le> batchSize \<and>
     (batchSize * fieldCount t \<le> maxParameters \<longleftrightarrow> fieldCount t \<le> 163) \<and>
     (fieldCount t \<le> 163 \<longrightarrow> length ds * fieldCount t \<le> maxParameters)"
proof -
  from mongoToSql_shape [OF run col] obtain tb ix cp fin where
    sh: "runShape env name c w r w' tb ix cp fin" by blast
  from q have "phaseOf ev = Copying" by (cases ev) auto
  from runShape_segment(4) [OF sh ev this] have "ev \<in> set cp" .
  moreover from sh have "\<forall>ev\<in>set cp. \<forall>q\<in>set (queryOf ev).
      \<exists>ds. q = InsertQuery (fromCollection env c) ds ConflictIgnore \<and> length ds \<le> batchSize"
    by (simp add: runShape_def)
  ultimately obtain ds' where
    "InsertQuery t ds s = InsertQuery (fromCollection env c) ds' ConflictIgnore"
    "length ds' \<le> batchSize"
    using q by blast
  then have 1: "t = fromCollection env c" "length ds \<le> batchSize" by simp_all
  have 2: "batchSize * fieldCount t \<le> maxParameters \<longleftrightarrow> fieldCount t \<le> 163"
    by (rule batchSize_limit)
  have 3: "fieldCount t \<le> 163 \<longrightarrow> length ds * fieldCount t \<le> maxParameters"
  proof
    assume "fieldCount t \<le> 163"
    with 1(2) have "length ds * fieldCount t \<le> 400 * 163"
      unfolding batchSize_def by (rule mult_le_mono)
    then show "length ds * fieldCount t \<le> maxParameters" by (simp add: maxParameters_def)
  qed
  from 1 2 3 show ?thesis by simp
qed

text \<open>
  The hypotheses hold for the INSERT of the run on \<open>Users\<close>.
\<close>

theorem batch_size_bound_witness:
  "getCollection exampleEnv ''Users'' = Some exampleUsers \<and>
   Compile (InsertQuery (exampleTable ''Users'') [exampleHeap 2] ConflictIgnore)
     \<in> set (emitted (exampleWorld 0) (snd (mongoToSql exampleEnv ''Users'' (exampleWorld 0)))) \<and>
   length [exampleHeap 2] \<le> batchSize \<and>
   fieldCount (exampleTable ''Users'') \<le> 163 \<and>
   length [exampleHeap 2] * fieldCount (exampleTable ''Users'') \<le> maxParameters"
proof -
  let ?ev = "Compile (InsertQuery (exampleTable ''Users'') [exampleHeap 2] ConflictIgnore)
     :: query event"
  have m: "?ev \<in> set (emitted (exampleWorld 0)
      (snd (mongoToSql exampleEnv ''Users'' (exampleWorld 0))))"
    unfolding users_run by code_simp
  have q: "InsertQuery (exampleTable ''Users'') [exampleHeap 2] ConflictIgnore \<in> set (queryOf ?ev)"
    by simp
  have n: "fieldCount (exampleTable ''Users'') \<le> 163" by code_simp
  from batch_size_bound [OF run_pair example_collections(2) m q] m n example_collections(2)
  show ?thesis by (simp add: maxParameters_def)
qed

subsection \<open>C7: running the migration again\<close>

text \<open>
  C7 as the specification states it (two runs in sequence on an unchanged source leave
  the destination with the same rows as one run) does not hold when a batch of the first
  run fails for a passing reason: with one transient failure to come, the first run on
  \<open>Posts\<close> inserts nothing and reports both posts, and the second run inserts them.
\<close>

theorem rerun_counterexample:
  "exampleRows (db (snd (mongoToSql exampleEnv ''Posts'' flakyWorld))) (JStr ''p1'') = None \<and>
   exampleRows (db (snd (mongoToSql exampleEnv ''Posts'' (rerun flakyWorld)))) (JStr ''p1'') \<noteq> None"
  unfolding rerun_flaky unfolding posts_run_flaky by code_simp

text \<open>
  C7, amended: every INSERT of a run is compiled with conflict strategy "ignore". With
  an additive destination, a second run on the unchanged source changes no row the
  first run left and adds rows only for documents of the collection (so no row is
  duplicated); when the first run completed with no failed batch, the second leaves the
  rows exactly as the first left them.
\<close>

theorem rerun_adds_only_missing_rows:
  assumes add: "additive env rowsOf" and col: "getCollection env name = Some c"
    and first: "mongoToSql env name w0 = (r1, w1)"
    and second: "mongoToSql env name (w1\<lparr>heap := heap w0\<rparr>) = (r2, w2)"
  shows "(\<forall>ev\<in>set (emitted w0 w1) \<union> set (emitted (w1\<lparr>heap := heap w0\<rparr>) w2).
            \<forall>q\<in>set (queryOf ev). \<forall>s\<in>set (insertStrategies q). s = ConflictIgnore) \<and>
     rowsOf (db w1) \<subseteq>\<^sub>m rowsOf (db w2) \<and>
     dom (rowsOf (db w2)) \<subseteq> dom (rowsOf (db w1)) \<union> set (ids (map (heap w0) (documents c))) \<and>
     (r1 = Inr () \<longrightarrow> errorIds w1 = [] \<longrightarrow> rowsOf (db w2) = rowsOf (db w1))"
proof -
  have 1: "\<forall>ev\<in>set (emitted w0 w1) \<union> set (emitted (w1\<lparr>heap := heap w0\<rparr>) w2).
            \<forall>q\<in>set (queryOf ev). \<forall>s\<in>set (insertStrategies q). s = ConflictIgnore"
    using run_strategies [OF first] run_strategies [OF second] by blast
  from mongoToSql_rows [OF second col add] have
    2: "rowsOf (db w1) \<subseteq>\<^sub>m rowsOf (db w2)" and
    3: "dom (rowsOf (db w2)) \<subseteq> dom (rowsOf (db w1)) \<union> set (ids (map (heap w0) (documents c)))"
    by simp_all
  have 4: "r1 = Inr () \<longrightarrow> errorIds w1 = [] \<longrightarrow> rowsOf (db w2) = rowsOf (db w1)"
  proof (intro impI)
    assume "r1 = Inr ()" "errorIds w1 = []"
    with mongoToSql_rows [OF first col add]
    have "set (ids (map (heap w0) (documents c))) \<subseteq> dom (rowsOf (db w1))" by simp
    with 3 have "dom (rowsOf (db w2)) \<subseteq> dom (rowsOf (db w1))" by blast
    with 2 show "rowsOf (db w2) = rowsOf (db w1)" by (rule map_le_dom_eq)
  qed
  from 1 2 3 4 show ?thesis by simp
qed

text \<open>
  The hypotheses hold for the example destination and two runs on \<open>Posts\<close> with no
  failure to come.
\<close>

theorem rerun_adds_only_missing_rows_witness:
  "additive exampleEnv exampleRows \<and>
   getCollection exampleEnv ''Posts'' = Some examplePosts \<and>
   fst (mongoToSql exampleEnv ''Posts'' (exampleWorld 0)) = Inr () \<and>
   errorIds (snd (mongoToSql exampleEnv ''Posts'' (exampleWorld 0))) = [] \<and>
   exampleRows (db (snd (mongoToSql exampleEnv ''Posts'' (rerun (exampleWorld 0))))) =
     exampleRows (db (snd (mongoToSql exampleEnv ''Posts'' (exampleWorld 0))))"
proof -
  let ?w1 = "snd (mongoToSql exampleEnv ''Posts'' (exampleWorld 0))"
  have r: "fst (mongoToSql exampleEnv ''Posts'' (exampleWorld 0)) = Inr ()"
    by (simp add: posts_run)
  have e: "errorIds ?w1 = []" unfolding posts_run by code_simp
  have second: "mongoToSql exampleEnv ''Posts'' (?w1\<lparr>heap := heap (exampleWorld 0)\<rparr>) =
      (fst (mongoToSql exampleEnv ''Posts'' (rerun (exampleWorld 0))),
       snd (mongoToSql exampleEnv ''Posts'' (rerun (exampleWorld 0))))"
    by (simp add: rerun_def)
  from rerun_adds_only_missing_rows [OF example_additive example_collections(1) run_pair second] r e
    example_additive example_collections(1)
  show ?thesis by simp
qed

subsection \<open>C8: a failing table creation\<close>

text \<open>
  C8: when the execution of the \<^verbatim>\<open>CREATE TABLE\<close> statement throws \<open>e\<close>, the run is
  rejected with \<open>e\<close> itself, and nothing of index creation, of copying or of the final
  report happens.
\<close>

theorem create_table_failure_aborts:
  assumes run: "mongoToSql env name w = (r, w')"
    and failed: "Unsafe (CreateTableQuery t) q (Some e) \<in> set (emitted w w')"
  shows "r = Inl e \<and>
     (\<forall>ev\<in>set (emitted w w'). phaseOf ev \<noteq> IndexesCreated \<and> phaseOf ev \<noteq> Copying \<and>
        phaseOf ev \<noteq> Done)"
proof (cases "getCollection env name")
  case None
  from failed show ?thesis
    unfolding mongoToSql_invalid_emitted [OF run None] by (simp add: lookupEvents_def)
next
  case (Some c)
  from mongoToSql_shape [OF run Some] obtain tb ix cp fin where
    sh: "runShape env name c w r w' tb ix cp fin" by blast
  have "phaseOf (Unsafe (CreateTableQuery t) q (Some e)) = TableCreated" by simp
  from runShape_segment(2) [OF sh failed this]
  have m: "Unsafe (CreateTableQuery t) q (Some e) \<in> set tb" .
  with sh have 1: "r = Inl e" "ix = []" "cp = []" "fin = []"
    by (auto simp: runShape_def)
  have "\<forall>ev\<in>set (emitted w w'). phaseOf ev \<noteq> IndexesCreated \<and> phaseOf ev \<noteq> Copying \<and>
        phaseOf ev \<noteq> Done"
  proof (intro ballI conjI notI)
    fix ev assume ev: "ev \<in> set (emitted w w')"
    { assume "phaseOf ev = IndexesCreated"
      from runShape_segment(3) [OF sh ev this] 1 show False by simp }
    { assume "phaseOf ev = Copying"
      from runShape_segment(4) [OF sh ev this] 1 show False by simp }
    { assume "phaseOf ev = Done"
      from runShape_segment(5) [OF sh ev this] 1 show False by simp }
  qed
  with 1 show ?thesis by simp
qed

text \<open>
  The hypothesis holds in the run on \<open>Users\<close> with the destination that refuses
  \<^verbatim>\<open>CREATE TABLE\<close>.
\<close>

theorem create_table_failure_aborts_witness:
  "Unsafe (CreateTableQuery (exampleTable ''Users'')) (CreateTableQuery (exampleTable ''Users''))
          (Some (JsError ''permission denied''))
     \<in> set (emitted (exampleWorld 0) (snd (mongoToSql tableRefusedEnv ''Users'' (exampleWorld 0))))
   \<and> fst (mongoToSql tableRefusedEnv ''Users'' (exampleWorld 0)) = Inl (JsError ''permission denied'')
   \<and> IndexesCreated \<notin> set (map phaseOf
         (emitted (exampleWorld 0) (snd (mongoToSql tableRefusedEnv ''Users'' (exampleWorld 0)))))
   \<and> Copying \<notin> set (map phaseOf
         (emitted (exampleWorld 0) (snd (mongoToSql tableRefusedEnv ''Users'' (exampleWorld 0)))))"
proof -
  have m: "Unsafe (CreateTableQuery (exampleTable ''Users'')) (CreateTableQuery (exampleTable ''Users''))
          (Some (JsError ''permission denied''))
     \<in> set (emitted (exampleWorld 0) (snd (mongoToSql tableRefusedEnv ''Users'' (exampleWorld 0))))"
    unfolding table_refused_run by code_simp
  from create_table_failure_aborts [OF run_pair m] m show ?thesis by auto
qed

subsection \<open>C9: skipped fields\<close>



subsection \<open>C10: collections without a formatter\<close>

text \<open>
  C10: in a run on a collection whose name has no entry in \<^verbatim>\<open>formatters\<close>, no
  document is changed, the document lists handed to \<^verbatim>\<open>InsertQuery\<close> are, in order,
  the batches of the collection as the source produced them (a first part of them when
  the run is rejected), and all of them when the run completes.
\<close>

theorem unregistered_formatter_identity:
  assumes run: "mongoToSql env name w = (r, w')" and col: "getCollection env name = Some c"
    and unregistered: "formatters env name = None"
  shows "heap w' = heap w \<and>
     prefix (insertedDocs (emitted w w'))
        (map (map (heap w)) (batches batchSize (documents c))) \<and>
     (r = Inr () \<longrightarrow>
        insertedDocs (emitted w w') = map (map (heap w)) (batches batchSize (documents c)))"
proof -
  from mongoToSql_shape [OF run col] obtain tb ix cp fin where
    sh: "runShape env name c w r w' tb ix cp fin" by blast
  note i = runShape_ids(4) [OF sh]
  from sh unregistered have
    "prefix (insertedDocs cp) (map (map (heap w)) (batches batchSize (documents c)))"
    "r = Inr () \<longrightarrow> insertedDocs cp = map (map (heap w)) (batches batchSize (documents c))"
    by (simp_all add: runShape_def)
  moreover have "heap w' = heap w" using mongoToSql_heap [OF run] unregistered by simp
  ultimately show ?thesis by (simp add: i)
qed

text \<open>
  The hypotheses hold in the run on \<open>Users\<close>.
\<close>

theorem unregistered_formatter_identity_witness:
  "getCollection exampleEnv ''Users'' = Some exampleUsers \<and>
   formatters exampleEnv ''Users'' = None \<and>
   heap (snd (mongoToSql exampleEnv ''Users'' (exampleWorld 0))) = heap (exampleWorld 0) \<and>
   insertedDocs (emitted (exampleWorld 0) (snd (mongoToSql exampleEnv ''Users'' (exampleWorld 0)))) =
     [[heap (exampleWorld 0) 2]]"
proof -
  have r: "fst (mongoToSql exampleEnv ''Users'' (exampleWorld 0)) = Inr ()"
    by (simp add: users_run)
  have b: "map (map (heap (exampleWorld 0))) (batches batchSize (documents exampleUsers)) =
     [[heap (exampleWorld 0) 2]]"
    by (simp add: exampleUsers_def batchSize_def batches.simps)
  from unregistered_formatter_identity [OF run_pair example_collections(2) example_users_unregistered,
      of "exampleWorld 0"] r b example_collections(2) example_users_unregistered
  show ?thesis by simp
qed

end
